theory Spec2Isabelle
  imports Complex_Main "HOL-Library.Product_Lexorder"
begin

section \<open>Data model of the gesture-to-note trigger engine (web\_version/script.js)\<close>

text \<open>
  JavaScript numbers are modelled as exact reals: coordinates, distances and detection
  rates are \<^typ>\<open>real\<close>, frame counters are \<^typ>\<open>int\<close>, key indices are \<^typ>\<open>nat\<close>.
  Rounding, NaN and Infinity of IEEE doubles are outside this model.
\<close>

type_synonym point = "real \<times> real"

datatype key_type = White | Black

text \<open>An entry of \<open>exportKeys\<close>: \<open>{ note, polygon, type }\<close>; its index is its position.\<close>

record key =
  key_note :: string
  polygon :: "point list"
  ktype :: key_type

text \<open>
  An entry of \<open>exportKeys\<close> as it is loaded: its \<open>polygon\<close> property may be missing. The
  readers that guard it (\<open>!pts\<close> in getPolygonCenter, \<open>!k.polygon\<close> in getKeysBoundingBox
  and drawAllKeys) treat such an entry like a key with an empty polygon, which is the
  key that \<open>keyOf\<close> gives. The readers that do not guard it raise a TypeError on
  \<open>polygon.length\<close>; the frame function models that where they are called.
\<close>

datatype entry = Key key | NoPolygon string key_type

fun keyOf :: "entry \<Rightarrow> key" where
  "keyOf (Key k) = k"
| "keyOf (NoPolygon note ty) = \<lparr> key_note = note, polygon = [], ktype = ty \<rparr>"

fun hasPolygon :: "entry \<Rightarrow> bool" where
  "hasPolygon (Key k) = True"
| "hasPolygon (NoPolygon note ty) = False"

text \<open>The global \<open>pianoTransform\<close> (the fields that the engine reads).\<close>

record pianoTransform =
  scale :: real
  translateX :: real
  translateY :: real
  rotation :: real
  flipH :: bool
  flipV :: bool

text \<open>\<open>layoutCanvas.width\<close> and \<open>layoutCanvas.height\<close>.\<close>

record canvas =
  width :: real
  height :: real

text \<open>The object returned by \<open>getKeysBoundingBox\<close>.\<close>

record bounds =
  minX :: real
  minY :: real
  maxX :: real
  maxY :: real
  centerX :: real
  centerY :: real
  bwidth :: real
  bheight :: real

subsection \<open>getPolygonCenter and getKeysBoundingBox\<close>

definition getPolygonCenter :: "point list \<Rightarrow> point" where
  "getPolygonCenter pts =
     (if pts = [] then (0, 0)
      else (sum_list (map fst pts) / real (length pts),
            sum_list (map snd pts) / real (length pts)))"

text \<open>
  The source folds \<open>Math.min\<close>/\<open>Math.max\<close> over every vertex of every key, starting from
  \<open>Infinity\<close>/\<open>-Infinity\<close>, and returns \<open>null\<close> when \<open>minX\<close> is still \<open>Infinity\<close>, that is when
  there is no vertex at all. The fold below starts from the first vertex instead.
\<close>

definition getKeysBoundingBox :: "key list \<Rightarrow> bounds option" where
  "getKeysBoundingBox keys =
     (case concat (map polygon keys) of
        [] \<Rightarrow> None
      | p # ps \<Rightarrow>
          (let mnX = fold (\<lambda>pt m. min m (fst pt)) ps (fst p);
               mnY = fold (\<lambda>pt m. min m (snd pt)) ps (snd p);
               mxX = fold (\<lambda>pt m. max m (fst pt)) ps (fst p);
               mxY = fold (\<lambda>pt m. max m (snd pt)) ps (snd p)
           in Some \<lparr> minX = mnX, minY = mnY, maxX = mxX, maxY = mxY,
                     centerX = (mnX + mxX) / 2, centerY = (mnY + mxY) / 2,
                     bwidth = mxX - mnX, bheight = mxY - mnY \<rparr>))"

subsection \<open>The display transform set up by drawAllKeys\<close>

text \<open>
  The 2-D canvas keeps a current transformation matrix; a point \<open>(x, y)\<close> of user space
  is drawn at \<open>(a x + c y + e, b x + d y + f)\<close>. \<open>translate\<close>, \<open>rotate\<close> and \<open>scale\<close>
  multiply the matrix on the right, as the canvas API defines them.
\<close>

record ctm =
  ma :: real
  mb :: real
  mc :: real
  md :: real
  me :: real
  mf :: real

definition ctm_identity :: ctm where
  "ctm_identity = \<lparr> ma = 1, mb = 0, mc = 0, md = 1, me = 0, mf = 0 \<rparr>"

definition ctx_translate :: "real \<Rightarrow> real \<Rightarrow> ctm \<Rightarrow> ctm" where
  "ctx_translate tx ty m =
     m \<lparr> me := ma m * tx + mc m * ty + me m, mf := mb m * tx + md m * ty + mf m \<rparr>"

definition ctx_rotate :: "real \<Rightarrow> ctm \<Rightarrow> ctm" where
  "ctx_rotate ang m =
     m \<lparr> ma := ma m * cos ang + mc m * sin ang, mb := mb m * cos ang + md m * sin ang,
         mc := mc m * cos ang - ma m * sin ang, md := md m * cos ang - mb m * sin ang \<rparr>"

definition ctx_scale :: "real \<Rightarrow> real \<Rightarrow> ctm \<Rightarrow> ctm" where
  "ctx_scale sx sy m =
     m \<lparr> ma := ma m * sx, mb := mb m * sx, mc := mc m * sy, md := md m * sy \<rparr>"

definition ctm_apply :: "ctm \<Rightarrow> point \<Rightarrow> point" where
  "ctm_apply m p = (ma m * fst p + mc m * snd p + me m, mb m * fst p + md m * snd p + mf m)"

text \<open>
  The matrix in force while drawAllKeys draws the key polygons: the four calls of lines
  2215--2218 when the bounding box exists, the matrix left unchanged otherwise.
\<close>

definition drawAllKeys_ctm :: "canvas \<Rightarrow> pianoTransform \<Rightarrow> key list \<Rightarrow> ctm" where
  "drawAllKeys_ctm cv tr keys =
     (case getKeysBoundingBox keys of
        None \<Rightarrow> ctm_identity
      | Some kb \<Rightarrow>
          (let canvasCenterX = width cv / 2;
               canvasCenterY = height cv / 2;
               m1 = ctx_translate (canvasCenterX + translateX tr) (canvasCenterY + translateY tr)
                      ctm_identity;
               m2 = ctx_rotate ((rotation tr * pi) / 180) m1;
               m3 = ctx_scale (scale tr * (if flipH tr then -1 else 1))
                              (scale tr * (if flipV tr then -1 else 1)) m2
           in ctx_translate (- centerX kb) (- centerY kb) m3))"

subsection \<open>transformPointForDetection\<close>

definition transformPointForDetection :: "canvas \<Rightarrow> pianoTransform \<Rightarrow> key list \<Rightarrow> point \<Rightarrow> point" where
  "transformPointForDetection cv tr keys p =
     (case getKeysBoundingBox keys of
        None \<Rightarrow> p
      | Some kb \<Rightarrow>
          (let canvasCenterX = width cv / 2;
               canvasCenterY = height cv / 2;
               tx = fst p - canvasCenterX - translateX tr;
               ty = snd p - canvasCenterY - translateY tr;
               ang = - (rotation tr * pi) / 180;
               rx = tx * cos ang - ty * sin ang;
               ry = tx * sin ang + ty * cos ang;
               sx = rx / scale tr;
               sy = ry / scale tr;
               fx = (if flipH tr then - sx else sx);
               fy = (if flipV tr then - sy else sy)
           in (fx + centerX kb, fy + centerY kb)))"

section \<open>Engine state and configuration\<close>

text \<open>The adjustable parameters (module-level \<open>let\<close> variables set by the sidebar).\<close>

record config =
  SMOOTHING_FRAMES :: nat
  ACTIVATION_THRESHOLD :: real
  DEACTIVATION_THRESHOLD :: real
  MOVEMENT_THRESHOLD :: real
  DOWNWARD_MOVEMENT_THRESHOLD :: real
  REST_THRESHOLD_FRAMES :: int
  TRIGGER_COOLDOWN_FRAMES :: int
  redLinePosition :: real

definition RED_LINE_BUFFER :: real where
  "RED_LINE_BUFFER = 25 / 1000"

text \<open>The values the variables are initialised with.\<close>

definition defaultConfig :: config where
  "defaultConfig = \<lparr> SMOOTHING_FRAMES = 3, ACTIVATION_THRESHOLD = 5 / 10,
     DEACTIVATION_THRESHOLD = 3 / 10, MOVEMENT_THRESHOLD = 10,
     DOWNWARD_MOVEMENT_THRESHOLD = 8, REST_THRESHOLD_FRAMES = 5,
     TRIGGER_COOLDOWN_FRAMES = 8, redLinePosition = 68 / 100 \<rparr>"

text \<open>A finger id is the string \<open>handIndex_fingerIndex\<close>; here the pair of the two indices.\<close>

type_synonym fingerId = "nat \<times> nat"

record fingerPos =
  pos_x :: real
  pos_y :: real
  pos_frame :: int

text \<open>
  The mutable module-level state. JavaScript \<open>Set\<close>s iterate in insertion order, so they
  are lists without duplicates; the objects used as dictionaries are maps.
\<close>

record engine =
  frameCount :: int
  previousFingerPositions :: "fingerId \<rightharpoonup> fingerPos"
  fingerKeyMapping :: "fingerId \<rightharpoonup> nat"
  fingerRestFrames :: "fingerId \<rightharpoonup> int"
  fingerPreviousKeys :: "fingerId \<rightharpoonup> nat"
  fingerTriggeredKeys :: "fingerId \<rightharpoonup> nat"
  fingerTriggerFrames :: "fingerId \<rightharpoonup> int"
  keyDetectionHistory :: "nat \<rightharpoonup> nat list"
  smoothedActiveKeys :: "nat list"
  hoveredKeyIndices :: "nat list"
  currentlyHoveredNotes :: "string list"

definition set_add :: "'a list \<Rightarrow> 'a \<Rightarrow> 'a list" where
  "set_add s x = (if x \<in> set s then s else s @ [x])"

definition set_delete :: "'a list \<Rightarrow> 'a \<Rightarrow> 'a list" where
  "set_delete s x = filter (\<lambda>y. y \<noteq> x) s"

definition set_of_list :: "'a list \<Rightarrow> 'a list" where
  "set_of_list xs = fold (\<lambda>x s. set_add s x) xs []"

section \<open>Point-in-polygon tests\<close>

text \<open>
  \<open>x < num / den + xi\<close> as JavaScript evaluates it. For \<open>den = 0\<close> the quotient is
  \<open>Infinity\<close>, \<open>-Infinity\<close> or \<open>NaN\<close> according to the sign of \<open>num\<close>, and the comparison
  of a finite \<open>x\<close> with it is true only for \<open>Infinity\<close>.
\<close>

definition lt_quotient :: "real \<Rightarrow> real \<Rightarrow> real \<Rightarrow> real \<Rightarrow> bool" where
  "lt_quotient x num den xi = (if den = 0 then 0 < num else x < num / den + xi)"

text \<open>
  The edge test of the loop in the per-finger hit test (line 1053). \<open>&&\<close> evaluates its
  right operand, and so the division, only when the left operand is true.
\<close>

definition straddles :: "real \<Rightarrow> point \<Rightarrow> point \<Rightarrow> bool" where
  "straddles ty vi vj = ((snd vi > ty) \<noteq> (snd vj > ty))"

definition intersect_inline :: "real \<Rightarrow> real \<Rightarrow> point \<Rightarrow> point \<Rightarrow> bool" where
  "intersect_inline tx ty vi vj =
     (let xi = fst vi; yi = snd vi; xj = fst vj; yj = snd vj
      in ((yi > ty) \<noteq> (yj > ty)) \<and> lt_quotient tx ((xj - xi) * (ty - yi)) (yj - yi) xi)"

text \<open>The edge test of \<open>isPointInPolygon\<close> (lines 2445--2446), with \<open>1e-10\<close> in the divisor.\<close>

definition EPS :: real where
  "EPS = 1 / 10 ^ 10"

definition intersect_helper :: "real \<Rightarrow> real \<Rightarrow> point \<Rightarrow> point \<Rightarrow> bool" where
  "intersect_helper x y vi vj =
     (let xi = fst vi; yi = snd vi; xj = fst vj; yj = snd vj
      in ((yi > y) \<noteq> (yj > y)) \<and> lt_quotient x ((xj - xi) * (y - yi)) (yj - yi + EPS) xi)"

text \<open>
  \<open>for (j = 0, k = poly.length - 1; j < poly.length; k = j++)\<close>: the edge of iteration
  \<open>j\<close> joins vertex \<open>j\<close> to the vertex before it, cyclically.
\<close>

definition prev_index :: "'a list \<Rightarrow> nat \<Rightarrow> nat" where
  "prev_index poly j = (if j = 0 then length poly - 1 else j - 1)"

definition crossing_loop :: "(point \<Rightarrow> point \<Rightarrow> bool) \<Rightarrow> point list \<Rightarrow> bool" where
  "crossing_loop intersect poly =
     fold (\<lambda>j inside. if intersect (poly ! j) (poly ! prev_index poly j) then \<not> inside else inside)
       [0..<length poly] False"

text \<open>
  The loop of lines 1050--1055, over exact reals. The source rounds the product, the
  quotient and the sum of an edge test, so for a point within rounding distance of an
  edge its test may differ from this one: the tests of one edge taken in its two
  directions always agree here and may disagree there.
\<close>

definition inside_inline :: "point list \<Rightarrow> real \<Rightarrow> real \<Rightarrow> bool" where
  "inside_inline poly tx ty = crossing_loop (intersect_inline tx ty) poly"

definition isPointInPolygon :: "canvas \<Rightarrow> pianoTransform \<Rightarrow> key list \<Rightarrow> real \<Rightarrow> real \<Rightarrow> point list \<Rightarrow> bool" where
  "isPointInPolygon cv tr keys x y poly =
     (let transformed = transformPointForDetection cv tr keys (x, y)
      in crossing_loop (intersect_helper (fst transformed) (snd transformed)) poly)"

text \<open>
  The divisors of the divisions that a test really evaluates on a polygon: one for each
  edge whose left operand of \<open>&&\<close> is true.
\<close>

definition divisors_inline :: "point list \<Rightarrow> real \<Rightarrow> real list" where
  "divisors_inline poly ty =
     map (\<lambda>j. snd (poly ! prev_index poly j) - snd (poly ! j))
       (filter (\<lambda>j. straddles ty (poly ! j) (poly ! prev_index poly j)) [0..<length poly])"

definition divisors_helper :: "point list \<Rightarrow> real \<Rightarrow> real list" where
  "divisors_helper poly y =
     map (\<lambda>j. snd (poly ! prev_index poly j) - snd (poly ! j) + EPS)
       (filter (\<lambda>j. straddles y (poly ! j) (poly ! prev_index poly j)) [0..<length poly])"

section \<open>Per-finger processing (processLandmarkerResults, lines 971--1161)\<close>

subsection \<open>Motion tracking\<close>

text \<open>The arguments named \<open>t\<close> are the transformed finger point \<open>(tx, ty)\<close>.\<close>

definition hasMovement :: "config \<Rightarrow> engine \<Rightarrow> fingerId \<Rightarrow> point \<Rightarrow> bool" where
  "hasMovement cfg st fingerId t =
     (case previousFingerPositions st fingerId of
        None \<Rightarrow> False
      | Some prev \<Rightarrow>
          (let dx = fst t - pos_x prev;
               dy = snd t - pos_y prev;
               distance = sqrt (dx * dx + dy * dy)
           in distance > MOVEMENT_THRESHOLD cfg))"

definition hasDownwardMovement :: "config \<Rightarrow> engine \<Rightarrow> fingerId \<Rightarrow> point \<Rightarrow> bool" where
  "hasDownwardMovement cfg st fingerId t =
     (case previousFingerPositions st fingerId of
        None \<Rightarrow> False
      | Some prev \<Rightarrow> (let dy = snd t - pos_y prev in dy > DOWNWARD_MOVEMENT_THRESHOLD cfg))"

text \<open>The value stored in \<open>fingerRestFrames[fingerId]\<close> by lines 985--1009.\<close>

definition restFrames :: "config \<Rightarrow> engine \<Rightarrow> fingerId \<Rightarrow> point \<Rightarrow> int" where
  "restFrames cfg st fingerId t =
     (case previousFingerPositions st fingerId of
        None \<Rightarrow> REST_THRESHOLD_FRAMES cfg
      | Some prev \<Rightarrow>
          (if hasMovement cfg st fingerId t \<or> hasDownwardMovement cfg st fingerId t then 0
           else (case fingerRestFrames st fingerId of None \<Rightarrow> 0 | Some r \<Rightarrow> r) + 1))"

definition isAtRest :: "config \<Rightarrow> engine \<Rightarrow> fingerId \<Rightarrow> point \<Rightarrow> bool" where
  "isAtRest cfg st fingerId t = (restFrames cfg st fingerId t \<ge> REST_THRESHOLD_FRAMES cfg)"

text \<open>The state after lines 985--1012: rest counter and previous position stored.\<close>

definition trackMotion :: "config \<Rightarrow> engine \<Rightarrow> fingerId \<Rightarrow> point \<Rightarrow> engine" where
  "trackMotion cfg st fingerId t =
     st \<lparr> fingerRestFrames := (fingerRestFrames st)(fingerId \<mapsto> restFrames cfg st fingerId t),
          previousFingerPositions := (previousFingerPositions st)
            (fingerId \<mapsto> \<lparr> pos_x = fst t, pos_y = snd t, pos_frame = frameCount st \<rparr>) \<rparr>"

subsection \<open>Cooldown\<close>

definition framesSinceTrigger :: "engine \<Rightarrow> fingerId \<Rightarrow> int" where
  "framesSinceTrigger st fingerId =
     (let lastTriggerFrame = (case fingerTriggerFrames st fingerId of None \<Rightarrow> 0 | Some f \<Rightarrow> f)
      in frameCount st - lastTriggerFrame)"

definition isInCooldown :: "config \<Rightarrow> engine \<Rightarrow> fingerId \<Rightarrow> bool" where
  "isInCooldown cfg st fingerId =
     (fingerTriggeredKeys st fingerId \<noteq> None \<and>
      framesSinceTrigger st fingerId < TRIGGER_COOLDOWN_FRAMES cfg)"

subsection \<open>Hit testing with the band filter\<close>

definition upperRedBand :: "config \<Rightarrow> bounds \<Rightarrow> real" where
  "upperRedBand cfg keysBounds =
     (let redLineY = minY keysBounds + (bheight keysBounds * redLinePosition cfg);
          redBufferPx = bheight keysBounds * RED_LINE_BUFFER
      in redLineY - redBufferPx)"

definition lowerRedBand :: "config \<Rightarrow> bounds \<Rightarrow> real" where
  "lowerRedBand cfg keysBounds =
     (let redLineY = minY keysBounds + (bheight keysBounds * redLinePosition cfg);
          redBufferPx = bheight keysBounds * RED_LINE_BUFFER
      in redLineY + redBufferPx)"

definition isAboveRedLine :: "config \<Rightarrow> bounds \<Rightarrow> real \<Rightarrow> bool" where
  "isAboveRedLine cfg keysBounds ty = (ty < upperRedBand cfg keysBounds)"

definition isBelowRedLine :: "config \<Rightarrow> bounds \<Rightarrow> real \<Rightarrow> bool" where
  "isBelowRedLine cfg keysBounds ty = (ty > lowerRedBand cfg keysBounds)"

definition isInsideRedBuffer :: "config \<Rightarrow> bounds \<Rightarrow> real \<Rightarrow> bool" where
  "isInsideRedBuffer cfg keysBounds ty =
     (\<not> isAboveRedLine cfg keysBounds ty \<and> \<not> isBelowRedLine cfg keysBounds ty)"

text \<open>An entry of \<open>fingerKeys\<close>.\<close>

record candidate =
  index :: nat
  ctype :: key_type
  distance :: real
  isThumb :: bool
  priority :: nat

text \<open>
  One iteration of the loop over \<open>exportKeys\<close> (lines 1046--1084): what key \<open>i\<close> adds
  to \<open>fingerKeys\<close>, nothing or one entry.
\<close>

definition keyCandidate :: "config \<Rightarrow> key list \<Rightarrow> bounds \<Rightarrow> bool \<Rightarrow> point \<Rightarrow> nat \<Rightarrow> candidate list" where
  "keyCandidate cfg keys keysBounds thumb t i =
     (if inside_inline (polygon (keys ! i)) (fst t) (snd t) then
        (if \<not> isInsideRedBuffer cfg keysBounds (snd t) \<and>
            isAboveRedLine cfg keysBounds (snd t) \<and> ktype (keys ! i) \<noteq> Black then []
         else if \<not> isInsideRedBuffer cfg keysBounds (snd t) \<and>
            isBelowRedLine cfg keysBounds (snd t) \<and> ktype (keys ! i) \<noteq> White then []
         else
           (let keyCenter = getPolygonCenter (polygon (keys ! i));
                d = sqrt ((fst t - fst keyCenter)\<^sup>2 + (snd t - snd keyCenter)\<^sup>2)
            in [\<lparr> index = i, ctype = ktype (keys ! i), distance = d, isThumb = thumb,
                   priority = (if thumb then 0 else 1) \<rparr>]))
      else [])"

definition collectFingerKeys :: "config \<Rightarrow> key list \<Rightarrow> bounds \<Rightarrow> bool \<Rightarrow> point \<Rightarrow> candidate list" where
  "collectFingerKeys cfg keys keysBounds thumb t =
     concat (map (keyCandidate cfg keys keysBounds thumb t) [0..<length keys])"

text \<open>
  \<open>selectedKeyIndex\<close>: with several candidates the list is sorted by priority, then by
  distance (\<open>Array.prototype.sort\<close> is stable), and the first entry is taken.
\<close>

definition selectKey :: "candidate list \<Rightarrow> nat option" where
  "selectKey fingerKeys =
     (if length fingerKeys > 1 then
        Some (index (hd (sort_key (\<lambda>c. (priority c, distance c)) fingerKeys)))
      else if length fingerKeys = 1 then Some (index (hd fingerKeys))
      else None)"

subsection \<open>Trigger decision\<close>

definition keyChanged :: "engine \<Rightarrow> fingerId \<Rightarrow> nat \<Rightarrow> bool" where
  "keyChanged st fingerId selectedKeyIndex =
     (let previousKey = fingerPreviousKeys st fingerId
      in previousKey \<noteq> None \<and> previousKey \<noteq> Some selectedKeyIndex)"

definition canTrigger :: "config \<Rightarrow> engine \<Rightarrow> fingerId \<Rightarrow> nat \<Rightarrow> bool" where
  "canTrigger cfg st fingerId selectedKeyIndex =
     (let isSameKeyAsLastTrigger = (fingerTriggeredKeys st fingerId = Some selectedKeyIndex)
      in \<not> isInCooldown cfg st fingerId \<or> keyChanged st fingerId selectedKeyIndex \<or>
         (isSameKeyAsLastTrigger \<and>
          framesSinceTrigger st fingerId \<ge> TRIGGER_COOLDOWN_FRAMES cfg))"

definition shouldTrigger :: "config \<Rightarrow> engine \<Rightarrow> fingerId \<Rightarrow> nat \<Rightarrow> bool \<Rightarrow> bool \<Rightarrow> bool" where
  "shouldTrigger cfg st fingerId selectedKeyIndex mov down =
     (canTrigger cfg st fingerId selectedKeyIndex \<and>
      (mov \<or> down \<or> keyChanged st fingerId selectedKeyIndex))"

text \<open>
  Lines 1096--1120 and, word for word the same, lines 1125--1149. \<open>mov\<close>, \<open>down\<close> and
  \<open>rest\<close> are \<open>hasMovement\<close>, \<open>hasDownwardMovement\<close> and \<open>isAtRest\<close> of this frame; the
  second component of the pair is \<open>rawDetectedKeys\<close>.
\<close>

definition triggerDecision ::
  "config \<Rightarrow> fingerId \<Rightarrow> nat \<Rightarrow> bool \<Rightarrow> bool \<Rightarrow> bool \<Rightarrow> engine \<times> nat list \<Rightarrow> engine \<times> nat list" where
  "triggerDecision cfg fingerId selectedKeyIndex mov down rest acc =
     (let st = fst acc; rawDetectedKeys = snd acc
      in if shouldTrigger cfg st fingerId selectedKeyIndex mov down then
           (st \<lparr> fingerKeyMapping := (fingerKeyMapping st)(fingerId \<mapsto> selectedKeyIndex),
                 fingerPreviousKeys := (fingerPreviousKeys st)(fingerId \<mapsto> selectedKeyIndex),
                 fingerTriggeredKeys := (fingerTriggeredKeys st)(fingerId \<mapsto> selectedKeyIndex),
                 fingerTriggerFrames := (fingerTriggerFrames st)(fingerId \<mapsto> frameCount st),
                 fingerRestFrames := (fingerRestFrames st)(fingerId \<mapsto> 0) \<rparr>,
            set_add rawDetectedKeys selectedKeyIndex)
         else if fingerKeyMapping st fingerId = Some selectedKeyIndex \<and> down \<and> \<not> rest then
           (st, set_add rawDetectedKeys selectedKeyIndex)
         else (st, rawDetectedKeys))"

text \<open>
  The key selected for a finger this frame: none when the finger is skipped by the rest
  gate of line 1025, when there is no bounding box, or when no key is a candidate.
\<close>

definition selectedKey ::
  "config \<Rightarrow> canvas \<Rightarrow> pianoTransform \<Rightarrow> key list \<Rightarrow> engine \<Rightarrow> fingerId \<Rightarrow> bool \<Rightarrow> point \<Rightarrow> nat option" where
  "selectedKey cfg cv tr keys st fingerId thumb xy =
     (let t = transformPointForDetection cv tr keys xy
      in if isAtRest cfg st fingerId t \<and> \<not> hasDownwardMovement cfg st fingerId t \<and>
            \<not> hasMovement cfg st fingerId t then None
         else (case getKeysBoundingBox keys of
                 None \<Rightarrow> None
               | Some keysBounds \<Rightarrow> selectKey (collectFingerKeys cfg keys keysBounds thumb t)))"

text \<open>The body of \<open>allFingerPoints.forEach\<close> for the finger at canvas point \<open>xy\<close>.\<close>

definition processFinger ::
  "config \<Rightarrow> canvas \<Rightarrow> pianoTransform \<Rightarrow> key list \<Rightarrow> fingerId \<Rightarrow> bool \<Rightarrow> point \<Rightarrow>
   engine \<times> nat list \<Rightarrow> engine \<times> nat list" where
  "processFinger cfg cv tr keys fingerId thumb xy acc =
     (let st = fst acc; rawDetectedKeys = snd acc;
          t = transformPointForDetection cv tr keys xy;
          mov = hasMovement cfg st fingerId t;
          down = hasDownwardMovement cfg st fingerId t;
          rest = isAtRest cfg st fingerId t;
          st1 = trackMotion cfg st fingerId t
      in if rest \<and> \<not> down \<and> \<not> mov then (st1, rawDetectedKeys)
         else
           (case getKeysBoundingBox keys of
              None \<Rightarrow> (st1, rawDetectedKeys)
            | Some keysBounds \<Rightarrow>
                (case selectKey (collectFingerKeys cfg keys keysBounds thumb t) of
                   Some selectedKeyIndex \<Rightarrow>
                     triggerDecision cfg fingerId selectedKeyIndex mov down rest (st1, rawDetectedKeys)
                 | None \<Rightarrow>
                     (st1 \<lparr> fingerKeyMapping := (fingerKeyMapping st1)(fingerId := None),
                            fingerPreviousKeys := (fingerPreviousKeys st1)(fingerId := None) \<rparr>,
                      rawDetectedKeys))))"

subsection \<open>The loops over hands and fingers\<close>

record landmark =
  lm_x :: real
  lm_y :: real
  lm_z :: real

text \<open>
  A hand is the tracker's list of 21 landmarks. Reading \<open>.x\<close> of a missing landmark
  8, 12, 16 or 20 raises a TypeError, so the frame function below returns \<open>None\<close> on a
  shorter hand.
\<close>

type_synonym hand = "landmark list"

definition thumbTip :: "hand \<Rightarrow> landmark option" where
  "thumbTip landmarks = (if 4 < length landmarks then Some (landmarks ! 4) else None)"

definition otherFingers :: "hand \<Rightarrow> landmark list" where
  "otherFingers landmarks = map (\<lambda>i. landmarks ! i) [8, 12, 16, 20]"

definition toCanvas :: "canvas \<Rightarrow> landmark \<Rightarrow> point" where
  "toCanvas cv pt = (lm_x pt * width cv, lm_y pt * height cv)"

definition allFingerPoints :: "canvas \<Rightarrow> hand \<Rightarrow> point list" where
  "allFingerPoints cv landmarks =
     (let otherFingerPoints = map (toCanvas cv) (otherFingers landmarks)
      in case thumbTip landmarks of
           Some t \<Rightarrow> toCanvas cv t # otherFingerPoints
         | None \<Rightarrow> otherFingerPoints)"

text \<open>
  The hit-test loop of lines 1046--1084 reads \<open>poly.length\<close> of every entry, unguarded.
  A finger that gets past the rest gate of line 1025 and the bounding box test of line
  1031 therefore raises a TypeError when some entry has no polygon; \<open>processFinger\<close>
  above is the body of the callback when it returns.
\<close>

definition reachesHitTest ::
  "config \<Rightarrow> canvas \<Rightarrow> pianoTransform \<Rightarrow> key list \<Rightarrow> engine \<Rightarrow> fingerId \<Rightarrow> point \<Rightarrow> bool" where
  "reachesHitTest cfg cv tr keys st fingerId xy =
     (let t = transformPointForDetection cv tr keys xy
      in if isAtRest cfg st fingerId t \<and> \<not> hasDownwardMovement cfg st fingerId t \<and>
            \<not> hasMovement cfg st fingerId t then False
         else (case getKeysBoundingBox keys of None \<Rightarrow> False | Some keysBounds \<Rightarrow> True))"

definition hitTestRaises ::
  "config \<Rightarrow> canvas \<Rightarrow> pianoTransform \<Rightarrow> entry list \<Rightarrow> engine \<Rightarrow> fingerId \<Rightarrow> point \<Rightarrow> bool" where
  "hitTestRaises cfg cv tr exportKeys st fingerId xy =
     (reachesHitTest cfg cv tr (map keyOf exportKeys) st fingerId xy \<and>
      \<not> list_all hasPolygon exportKeys)"

text \<open>
  The callback of \<open>allFingerPoints.forEach\<close> and the two loops around it; \<open>None\<close> is the
  TypeError, which ends the frame.
\<close>

definition scanFinger ::
  "config \<Rightarrow> canvas \<Rightarrow> pianoTransform \<Rightarrow> entry list \<Rightarrow> fingerId \<Rightarrow> bool \<Rightarrow> point \<Rightarrow>
   (engine \<times> nat list) option \<Rightarrow> (engine \<times> nat list) option" where
  "scanFinger cfg cv tr exportKeys fingerId thumb xy acc =
     (case acc of
        None \<Rightarrow> None
      | Some a \<Rightarrow>
          (if hitTestRaises cfg cv tr exportKeys (fst a) fingerId xy then None
           else Some (processFinger cfg cv tr (map keyOf exportKeys) fingerId thumb xy a)))"

definition scanHand ::
  "config \<Rightarrow> canvas \<Rightarrow> pianoTransform \<Rightarrow> entry list \<Rightarrow> nat \<Rightarrow> hand \<Rightarrow>
   (engine \<times> nat list) option \<Rightarrow> (engine \<times> nat list) option" where
  "scanHand cfg cv tr exportKeys handIndex landmarks acc =
     fold (\<lambda>(fingerIndex, xy).
             scanFinger cfg cv tr exportKeys (handIndex, fingerIndex)
               (thumbTip landmarks \<noteq> None \<and> fingerIndex = 0) xy)
       (enumerate 0 (allFingerPoints cv landmarks)) acc"

definition scanHands ::
  "config \<Rightarrow> canvas \<Rightarrow> pianoTransform \<Rightarrow> entry list \<Rightarrow> hand list \<Rightarrow> engine \<Rightarrow>
   (engine \<times> nat list) option" where
  "scanHands cfg cv tr exportKeys hands st =
     fold (\<lambda>(handIndex, landmarks). scanHand cfg cv tr exportKeys handIndex landmarks)
       (enumerate 0 hands) (Some (st, []))"

text \<open>
  The same loops without the exception: over \<open>map keyOf exportKeys\<close> they give the
  value of \<open>scanHands\<close> whenever that is not \<open>None\<close>, in particular for a layout in
  which every entry has a polygon.
\<close>

definition processHand ::
  "config \<Rightarrow> canvas \<Rightarrow> pianoTransform \<Rightarrow> key list \<Rightarrow> nat \<Rightarrow> hand \<Rightarrow>
   engine \<times> nat list \<Rightarrow> engine \<times> nat list" where
  "processHand cfg cv tr keys handIndex landmarks acc =
     fold (\<lambda>(fingerIndex, xy).
             processFinger cfg cv tr keys (handIndex, fingerIndex)
               (thumbTip landmarks \<noteq> None \<and> fingerIndex = 0) xy)
       (enumerate 0 (allFingerPoints cv landmarks)) acc"

definition detectKeys ::
  "config \<Rightarrow> canvas \<Rightarrow> pianoTransform \<Rightarrow> key list \<Rightarrow> hand list \<Rightarrow> engine \<Rightarrow> engine \<times> nat list" where
  "detectKeys cfg cv tr keys hands st =
     fold (\<lambda>(handIndex, landmarks). processHand cfg cv tr keys handIndex landmarks)
       (enumerate 0 hands) (st, [])"

section \<open>Concurrency limiter (lines 1165--1237)\<close>

text \<open>
  \<open>thumbKeyIndex\<close>: for each hand in turn, the first key in layout order whose polygon
  contains the thumb tip (by \<open>isPointInPolygon\<close>) overwrites the value found so far.
\<close>

definition findThumbKey :: "canvas \<Rightarrow> pianoTransform \<Rightarrow> key list \<Rightarrow> landmark \<Rightarrow> nat option" where
  "findThumbKey cv tr keys t =
     find (\<lambda>i. isPointInPolygon cv tr keys (lm_x t * width cv) (lm_y t * height cv)
                 (polygon (keys ! i))) [0..<length keys]"

definition thumbKeyIndex :: "canvas \<Rightarrow> pianoTransform \<Rightarrow> key list \<Rightarrow> hand list \<Rightarrow> nat option" where
  "thumbKeyIndex cv tr keys hands =
     fold (\<lambda>landmarks found.
             case thumbTip landmarks of
               None \<Rightarrow> found
             | Some t \<Rightarrow> (case findThumbKey cv tr keys t of None \<Rightarrow> found | Some i \<Rightarrow> Some i))
       hands None"

definition thumbPositions :: "canvas \<Rightarrow> pianoTransform \<Rightarrow> key list \<Rightarrow> hand list \<Rightarrow> point list" where
  "thumbPositions cv tr keys hands =
     concat (map (\<lambda>landmarks.
        case thumbTip landmarks of
          None \<Rightarrow> []
        | Some t \<Rightarrow> [transformPointForDetection cv tr keys (toCanvas cv t)]) hands)"

definition otherFingerPositions :: "canvas \<Rightarrow> pianoTransform \<Rightarrow> key list \<Rightarrow> hand list \<Rightarrow> point list" where
  "otherFingerPositions cv tr keys hands =
     concat (map (\<lambda>landmarks.
        map (\<lambda>pt. transformPointForDetection cv tr keys (toCanvas cv pt)) (otherFingers landmarks))
        hands)"

definition centerDistance :: "point \<Rightarrow> point \<Rightarrow> real" where
  "centerDistance keyCenter finger =
     sqrt ((fst keyCenter - fst finger)\<^sup>2 + (snd keyCenter - snd finger)\<^sup>2)"

text \<open>
  \<open>minDistance\<close> starts at \<open>Infinity\<close> and takes \<open>Math.min\<close> with the distance to every
  finger. Without any finger it stays \<open>Infinity\<close> for every key, the comparator of the
  sort then returns \<open>NaN\<close> for every pair and the stable sort leaves the order as it is;
  the constant \<open>0\<close> below stands for that common value.
\<close>

definition minDistance :: "point \<Rightarrow> point list \<Rightarrow> real" where
  "minDistance keyCenter fingers =
     (case fingers of
        [] \<Rightarrow> 0
      | f # fs \<Rightarrow> fold (\<lambda>finger m. min m (centerDistance keyCenter finger)) fs
                   (centerDistance keyCenter f))"

definition keyDistance :: "canvas \<Rightarrow> pianoTransform \<Rightarrow> key list \<Rightarrow> hand list \<Rightarrow> nat \<Rightarrow> real" where
  "keyDistance cv tr keys hands keyIndex =
     minDistance (getPolygonCenter (polygon (keys ! keyIndex)))
       (thumbPositions cv tr keys hands @ otherFingerPositions cv tr keys hands)"

text \<open>\<open>thumbKey\<close> of line 1204.\<close>

definition thumbKey :: "canvas \<Rightarrow> pianoTransform \<Rightarrow> key list \<Rightarrow> hand list \<Rightarrow> nat list \<Rightarrow> nat option" where
  "thumbKey cv tr keys hands rawDetectedKeys =
     (case thumbKeyIndex cv tr keys hands of
        None \<Rightarrow> None
      | Some i \<Rightarrow> if i \<in> set rawDetectedKeys then Some i else None)"

text \<open>\<open>keysWithDistance\<close> after the sort of line 1224, as the list of key indices.\<close>

definition sortedOtherKeys :: "canvas \<Rightarrow> pianoTransform \<Rightarrow> key list \<Rightarrow> hand list \<Rightarrow> nat list \<Rightarrow> nat list" where
  "sortedOtherKeys cv tr keys hands rawDetectedKeys =
     (let otherKeys = filter (\<lambda>i. Some i \<noteq> thumbKeyIndex cv tr keys hands) rawDetectedKeys
      in sort_key (keyDistance cv tr keys hands) otherKeys)"

definition limitKeys :: "canvas \<Rightarrow> pianoTransform \<Rightarrow> key list \<Rightarrow> hand list \<Rightarrow> nat list \<Rightarrow> nat list" where
  "limitKeys cv tr keys hands rawDetectedKeys =
     (if length rawDetectedKeys > 2 then
        (let keysWithDistance = sortedOtherKeys cv tr keys hands rawDetectedKeys
         in case thumbKey cv tr keys hands rawDetectedKeys of
              Some t \<Rightarrow>
                (if length keysWithDistance > 0 then set_add [t] (hd keysWithDistance) else [t])
            | None \<Rightarrow> set_of_list (take 2 keysWithDistance))
      else rawDetectedKeys)"

text \<open>
  \<open>isPointInPolygon\<close> reads \<open>poly.length\<close> unguarded as well, but the limiter runs only
  when more than two keys were asserted, that is after some finger went through the
  hit-test loop over every entry without raising.
\<close>

section \<open>Hysteresis smoother (lines 1239--1282)\<close>

text \<open>\<open>push\<close> the sample, then \<open>shift\<close> once if the window is exceeded.\<close>

definition pushSample :: "nat \<Rightarrow> nat list \<Rightarrow> nat \<Rightarrow> nat list" where
  "pushSample window history s =
     (let h = history @ [s] in if length h > window then tl h else h)"

definition historyOf :: "engine \<Rightarrow> nat \<Rightarrow> nat list" where
  "historyOf st i = (case keyDetectionHistory st i of None \<Rightarrow> [] | Some h \<Rightarrow> h)"

definition updateKeyHistory :: "config \<Rightarrow> nat list \<Rightarrow> nat \<Rightarrow> engine \<Rightarrow> engine" where
  "updateKeyHistory cfg rawDetectedKeys i st =
     st \<lparr> keyDetectionHistory := (keyDetectionHistory st)
            (i \<mapsto> pushSample (SMOOTHING_FRAMES cfg) (historyOf st i)
                    (if i \<in> set rawDetectedKeys then 1 else 0)) \<rparr>"

definition updateHistory :: "config \<Rightarrow> key list \<Rightarrow> nat list \<Rightarrow> engine \<Rightarrow> engine" where
  "updateHistory cfg keys rawDetectedKeys st =
     fold (updateKeyHistory cfg rawDetectedKeys) [0..<length keys] st"

definition detectionRate :: "nat list \<Rightarrow> real" where
  "detectionRate history = real (sum_list history) / real (length history)"

text \<open>The body of the second loop over \<open>exportKeys\<close> (lines 1254--1278) for key \<open>i\<close>.\<close>

definition smoothKey :: "config \<Rightarrow> nat list \<Rightarrow> nat \<Rightarrow> engine \<Rightarrow> engine" where
  "smoothKey cfg rawDetectedKeys i st =
     (let history = historyOf st i
      in if length history = 0 then
           (if i \<in> set rawDetectedKeys then
              st \<lparr> keyDetectionHistory := (keyDetectionHistory st)
                     (i \<mapsto> replicate (SMOOTHING_FRAMES cfg) 1),
                   smoothedActiveKeys := set_add (smoothedActiveKeys st) i \<rparr>
            else st)
         else
           (let rate = detectionRate history;
                isCurrentlyActive = (i \<in> set (smoothedActiveKeys st))
            in if \<not> isCurrentlyActive \<and> rate \<ge> ACTIVATION_THRESHOLD cfg then
                 st \<lparr> smoothedActiveKeys := set_add (smoothedActiveKeys st) i \<rparr>
               else if isCurrentlyActive \<and> rate < DEACTIVATION_THRESHOLD cfg then
                 st \<lparr> smoothedActiveKeys := set_delete (smoothedActiveKeys st) i \<rparr>
               else st))"

definition applySmoothing :: "config \<Rightarrow> key list \<Rightarrow> nat list \<Rightarrow> engine \<Rightarrow> engine" where
  "applySmoothing cfg keys rawDetectedKeys st =
     fold (smoothKey cfg rawDetectedKeys) [0..<length keys] st"

definition updateHovered :: "engine \<Rightarrow> engine" where
  "updateHovered st = st \<lparr> hoveredKeyIndices := smoothedActiveKeys st \<rparr>"

section \<open>Event emission (lines 1294--1316 and 1340--1381)\<close>

text \<open>The calls of \<open>tryPlayNote\<close> and \<open>stopNote\<close>, in the order they are made.\<close>

datatype event = NoteOn string | NoteOff string

definition polygonCenterX :: "point list \<Rightarrow> real" where
  "polygonCenterX poly = sum_list (map fst poly) / real (length poly)"

text \<open>
  Lines 1295--1302. The comparator of the sort reads \<open>exportKeys[a].polygon.reduce\<close> and
  is called as soon as two indices are hovered; the \<open>map\<close> reads \<open>exportKeys[i].note\<close>.
  Either raises a TypeError (\<open>None\<close>) for a hovered index outside the layout, the sort
  also for a hovered entry without a polygon. \<open>smoothedActiveKeys\<close> is never reset when
  the layout is replaced, so such an index can be hovered. For a hovered key with an
  empty polygon the comparator yields \<open>NaN\<close> and the order of the sorted indices, and so
  of the note calls, depends on the JavaScript engine; the calls made are the same.
\<close>

definition newHoveredNotes :: "entry list \<Rightarrow> engine \<Rightarrow> string list option" where
  "newHoveredNotes exportKeys st =
     (let hovered = hoveredKeyIndices st
      in if length hovered > 1 \<and>
            list_ex (\<lambda>i. i \<ge> length exportKeys \<or> \<not> hasPolygon (exportKeys ! i)) hovered
         then None
         else if list_ex (\<lambda>i. i \<ge> length exportKeys) hovered then None
         else
           (let sortedIndices =
                  sort_key (\<lambda>i. polygonCenterX (polygon (keyOf (exportKeys ! i)))) hovered
            in Some (set_of_list (map (\<lambda>i. key_note (keyOf (exportKeys ! i))) sortedIndices))))"

text \<open>Lines 1304--1315, after \<open>newHoveredNotes\<close> has been computed.\<close>

definition emitEvents :: "entry list \<Rightarrow> engine \<Rightarrow> (engine \<times> event list) option" where
  "emitEvents exportKeys st =
     (case newHoveredNotes exportKeys st of
        None \<Rightarrow> None
      | Some new \<Rightarrow>
          (let started = filter (\<lambda>n. n \<notin> set (currentlyHoveredNotes st)) new;
               stopped = filter (\<lambda>n. n \<notin> set new) (currentlyHoveredNotes st)
           in Some (st \<lparr> currentlyHoveredNotes := new \<rparr>,
                    map NoteOn started @ map NoteOff stopped)))"

text \<open>
  The result of a frame: the function returns, with the new state and the calls of
  \<open>tryPlayNote\<close> and \<open>stopNote\<close> it made, or it raises a TypeError after the note calls
  listed (the state an exception leaves behind is not modelled).
\<close>

datatype outcome = Returned engine "event list" | TypeError "event list"

text \<open>
  Lines 1317--1336, run after the note calls when a note is hovered: without a bounding
  box the label position is destructured from \<open>exportKeys[anyIndex].polygon[0]\<close>, which
  raises a TypeError when that polygon is missing or empty.
\<close>

definition hoverLabelRaises :: "entry list \<Rightarrow> engine \<Rightarrow> bool" where
  "hoverLabelRaises exportKeys st =
     (if length (currentlyHoveredNotes st) > 0 then
        (let anyIndex = hd (hoveredKeyIndices st)
         in case getKeysBoundingBox (map keyOf exportKeys) of
              Some keysBounds \<Rightarrow> False
            | None \<Rightarrow> polygon (keyOf (exportKeys ! anyIndex)) = [])
      else False)"

text \<open>The branch taken when a hand is detected (lines 1287--1336).\<close>

definition handsBranch :: "entry list \<Rightarrow> engine \<Rightarrow> outcome" where
  "handsBranch exportKeys st =
     (case emitEvents exportKeys st of
        None \<Rightarrow> TypeError []
      | Some emitted \<Rightarrow>
          (if hoverLabelRaises exportKeys (fst emitted) then TypeError (snd emitted)
           else Returned (fst emitted) (snd emitted)))"

text \<open>The branch taken when no hand is detected.\<close>

definition drainKey :: "config \<Rightarrow> nat \<Rightarrow> engine \<Rightarrow> engine" where
  "drainKey cfg i st =
     (let history = pushSample (SMOOTHING_FRAMES cfg) (historyOf st i) 0;
          st1 = st \<lparr> keyDetectionHistory := (keyDetectionHistory st)(i \<mapsto> history) \<rparr>
      in if length history > 0 then
           (if i \<in> set (smoothedActiveKeys st1) \<and>
               detectionRate history < DEACTIVATION_THRESHOLD cfg
            then st1 \<lparr> smoothedActiveKeys := set_delete (smoothedActiveKeys st1) i \<rparr>
            else st1)
         else st1)"

definition clearFingers :: "engine \<Rightarrow> engine" where
  "clearFingers st =
     st \<lparr> previousFingerPositions := Map.empty, fingerKeyMapping := Map.empty,
          fingerRestFrames := Map.empty, fingerPreviousKeys := Map.empty,
          fingerTriggeredKeys := Map.empty, fingerTriggerFrames := Map.empty \<rparr>"

definition noHands :: "config \<Rightarrow> key list \<Rightarrow> engine \<Rightarrow> engine \<times> event list" where
  "noHands cfg keys st =
     (let st1 = fold (drainKey cfg) [0..<length keys] (clearFingers st);
          st2 = updateHovered st1
      in if length (hoveredKeyIndices st2) = 0 then
           (st2 \<lparr> currentlyHoveredNotes := [] \<rparr>, map NoteOff (currentlyHoveredNotes st2))
         else (st2, []))"

section \<open>The frame function\<close>

text \<open>Lines 1385--1396: forget the fingers not seen for more than 10 frames.\<close>

definition cleanupFingers :: "engine \<Rightarrow> engine" where
  "cleanupFingers st =
     (let old = (\<lambda>fingerId. case previousFingerPositions st fingerId of
                   None \<Rightarrow> False
                 | Some p \<Rightarrow> frameCount st - pos_frame p > 10)
      in st \<lparr> previousFingerPositions := (\<lambda>f. if old f then None else previousFingerPositions st f),
              fingerKeyMapping := (\<lambda>f. if old f then None else fingerKeyMapping st f),
              fingerRestFrames := (\<lambda>f. if old f then None else fingerRestFrames st f),
              fingerPreviousKeys := (\<lambda>f. if old f then None else fingerPreviousKeys st f),
              fingerTriggeredKeys := (\<lambda>f. if old f then None else fingerTriggeredKeys st f),
              fingerTriggerFrames := (\<lambda>f. if old f then None else fingerTriggerFrames st f) \<rparr>)"

text \<open>
  \<open>processLandmarkerResults\<close> from line 938 on, with the stabilised landmarks as input
  (drawing left out). A hand that lacks one of the landmarks 8, 12, 16 and 20 raises a
  TypeError when its \<open>.x\<close> is read.
\<close>

definition processLandmarkerResults ::
  "config \<Rightarrow> canvas \<Rightarrow> pianoTransform \<Rightarrow> entry list \<Rightarrow> hand list \<Rightarrow> engine \<Rightarrow> outcome" where
  "processLandmarkerResults cfg cv tr exportKeys stabilizedLandmarks st =
     (let keys = map keyOf exportKeys
      in if length exportKeys = 0 then Returned st []
         else if \<not> list_all (\<lambda>landmarks. 20 < length landmarks) stabilizedLandmarks
         then TypeError []
         else
           (case (if length stabilizedLandmarks > 0
                  then scanHands cfg cv tr exportKeys stabilizedLandmarks st
                  else Some (st, [])) of
              None \<Rightarrow> TypeError []
            | Some detected \<Rightarrow>
                (let rawDetectedKeys = limitKeys cv tr keys stabilizedLandmarks (snd detected);
                     st1 = updateHistory cfg keys rawDetectedKeys (fst detected);
                     st2 = updateHovered (applySmoothing cfg keys rawDetectedKeys st1)
                 in if length stabilizedLandmarks > 0 then
                      (case handsBranch exportKeys st2 of
                         TypeError events \<Rightarrow> TypeError events
                       | Returned st3 events \<Rightarrow> Returned (cleanupFingers st3) events)
                    else
                      (let emitted = noHands cfg keys st2
                       in Returned (cleanupFingers (fst emitted)) (snd emitted)))))"

section \<open>Rendering (drawAllKeys, lines 2221--2255)\<close>


section \<open>Example inputs\<close>

text \<open>
  A 1280 by 720 canvas, an identity transform and five keys whose bounding box is centred
  on the canvas, so that canvas points and layout points coincide. The black key
  \<open>C#3\<close> overlaps the white keys \<open>C3\<close> and \<open>D3\<close>, as in the generated piano layout.
\<close>

definition demoCanvas :: canvas where
  "demoCanvas = \<lparr> width = 1280, height = 720 \<rparr>"

definition demoTransform :: pianoTransform where
  "demoTransform = \<lparr> scale = 1, translateX = 0, translateY = 0, rotation = 0,
                      flipH = False, flipV = False \<rparr>"

definition demoKeys :: "key list" where
  "demoKeys =
    [\<lparr> key_note = ''C3'', polygon = [(560, 310), (600, 310), (600, 410), (560, 410)], ktype = White \<rparr>,
     \<lparr> key_note = ''C#3'', polygon = [(590, 310), (610, 310), (610, 370), (590, 370)], ktype = Black \<rparr>,
     \<lparr> key_note = ''D3'', polygon = [(600, 310), (640, 310), (640, 410), (600, 410)], ktype = White \<rparr>,
     \<lparr> key_note = ''E3'', polygon = [(640, 310), (680, 310), (680, 410), (640, 410)], ktype = White \<rparr>,
     \<lparr> key_note = ''F3'', polygon = [(680, 310), (720, 310), (720, 410), (680, 410)], ktype = White \<rparr>]"

definition demoBounds :: bounds where
  "demoBounds = \<lparr> minX = 560, minY = 310, maxX = 720, maxY = 410, centerX = 640,
                   centerY = 360, bwidth = 160, bheight = 100 \<rparr>"

text \<open>
  Frame 10. The middle finger of hand 0 was last seen at \<open>(620, 400)\<close>, inside \<open>D3\<close>
  (key 2), which it triggered on frame 8.
\<close>

definition demoEngine :: engine where
  "demoEngine = \<lparr> frameCount = 10,
     previousFingerPositions = [(0, 2) \<mapsto> \<lparr> pos_x = 620, pos_y = 400, pos_frame = 9 \<rparr>],
     fingerKeyMapping = [(0, 2) \<mapsto> 2],
     fingerRestFrames = [(0, 2) \<mapsto> 0],
     fingerPreviousKeys = [(0, 2) \<mapsto> 2],
     fingerTriggeredKeys = [(0, 2) \<mapsto> 2],
     fingerTriggerFrames = [(0, 2) \<mapsto> 8],
     keyDetectionHistory = Map.empty, smoothedActiveKeys = [], hoveredKeyIndices = [],
     currentlyHoveredNotes = [] \<rparr>"

text \<open>
  Frame 10 again, but the finger triggered key 2 on frame 2 and has not moved on the
  frames 4, 6 and 8 since: its rest counter is 3 and the cooldown of 8 frames is over.
\<close>

definition elapsedEngine :: engine where
  "elapsedEngine = \<lparr> frameCount = 10,
     previousFingerPositions = [(0, 2) \<mapsto> \<lparr> pos_x = 620, pos_y = 400, pos_frame = 8 \<rparr>],
     fingerKeyMapping = [(0, 2) \<mapsto> 2],
     fingerRestFrames = [(0, 2) \<mapsto> 3],
     fingerPreviousKeys = [(0, 2) \<mapsto> 2],
     fingerTriggeredKeys = [(0, 2) \<mapsto> 2],
     fingerTriggerFrames = [(0, 2) \<mapsto> 2],
     keyDetectionHistory = Map.empty, smoothedActiveKeys = [], hoveredKeyIndices = [],
     currentlyHoveredNotes = [] \<rparr>"

text \<open>
  A triangle with a nearly horizontal edge: from \<open>(0, 0)\<close> the second vertex rises by
  exactly \<open>1e-10\<close>.
\<close>

definition sliverPolygon :: "point list" where
  "sliverPolygon = [(0, 0), (10, EPS), (5, -10)]"

section \<open>Derived notions for the smoother\<close>


definition isActive :: "nat \<Rightarrow> engine \<Rightarrow> bool" where
  "isActive i st = (i \<in> set (smoothedActiveKeys st))"

text \<open>Lines 1239--1278 of one frame: the history update, then the smoothing loop.\<close>

definition smoothFrame :: "config \<Rightarrow> key list \<Rightarrow> nat list \<Rightarrow> engine \<Rightarrow> engine" where
  "smoothFrame cfg keys rawDetectedKeys st =
     applySmoothing cfg keys rawDetectedKeys (updateHistory cfg keys rawDetectedKeys st)"

fun runFrames :: "config \<Rightarrow> key list \<Rightarrow> nat list list \<Rightarrow> engine \<Rightarrow> engine list" where
  "runFrames cfg keys [] st = []"
| "runFrames cfg keys (raw # raws) st =
     smoothFrame cfg keys raw st # runFrames cfg keys raws (smoothFrame cfg keys raw st)"

text \<open>
  The rule of lines 1270--1277 as a function of the rate and the active flag, and the
  flags of one key over a run of samples; both are used to describe \<open>smoothKey\<close> and
  \<open>runFrames\<close> key by key.
\<close>

definition hysteresis :: "config \<Rightarrow> real \<Rightarrow> bool \<Rightarrow> bool" where
  "hysteresis cfg rate isCurrentlyActive =
     (if \<not> isCurrentlyActive \<and> rate \<ge> ACTIVATION_THRESHOLD cfg then True
      else if isCurrentlyActive \<and> rate < DEACTIVATION_THRESHOLD cfg then False
      else isCurrentlyActive)"

fun keyTrace :: "config \<Rightarrow> nat list \<Rightarrow> nat list \<Rightarrow> bool \<Rightarrow> bool list" where
  "keyTrace cfg [] h a = []"
| "keyTrace cfg (s # ss) h a =
     hysteresis cfg (detectionRate (pushSample (SMOOTHING_FRAMES cfg) h s)) a #
     keyTrace cfg ss (pushSample (SMOOTHING_FRAMES cfg) h s)
       (hysteresis cfg (detectionRate (pushSample (SMOOTHING_FRAMES cfg) h s)) a)"

definition binary :: "nat list \<Rightarrow> bool" where
  "binary h = (\<forall>x\<in>set h. x \<le> 1)"

definition feed :: "nat \<Rightarrow> nat list \<Rightarrow> nat list \<Rightarrow> nat list" where
  "feed n ss h = fold (\<lambda>s h. pushSample n h s) ss h"

text \<open>
  Engines at frame 10 in which key 2 has a history: all samples 0 and inactive; all
  samples 1 and active; samples 0, 1, 1 and inactive.
\<close>

definition idleEngine :: engine where
  "idleEngine = demoEngine \<lparr> keyDetectionHistory := [2 \<mapsto> [0, 0, 0]] \<rparr>"

definition heldEngine :: engine where
  "heldEngine = demoEngine \<lparr> keyDetectionHistory := [2 \<mapsto> [1, 1, 1]], smoothedActiveKeys := [2] \<rparr>"

definition risingEngine :: engine where
  "risingEngine = demoEngine \<lparr> keyDetectionHistory := [2 \<mapsto> [0, 1, 1]] \<rparr>"

section \<open>Derived notions for event emission\<close>


text \<open>
  The note calls of a frame, whether it returns or raises, and the note calls and the
  hovered key indices of a frame that returns.
\<close>

fun noteCalls :: "outcome \<Rightarrow> event list" where
  "noteCalls (Returned st events) = events"
| "noteCalls (TypeError events) = events"

fun resultEvents :: "outcome \<Rightarrow> event list option" where
  "resultEvents (Returned st events) = Some events"
| "resultEvents (TypeError events) = None"

fun resultHovered :: "outcome \<Rightarrow> nat list option" where
  "resultHovered (Returned st events) = Some (hoveredKeyIndices st)"
| "resultHovered (TypeError events) = None"

fun resultNotes :: "outcome \<Rightarrow> string list option" where
  "resultNotes (Returned st events) = Some (currentlyHoveredNotes st)"
| "resultNotes (TypeError events) = None"

text \<open>The detection history of key \<open>i\<close> after a frame that returns.\<close>

fun resultHistory :: "outcome \<Rightarrow> nat \<Rightarrow> nat list option" where
  "resultHistory (Returned st events) i = Some (historyOf st i)"
| "resultHistory (TypeError events) i = None"

text \<open>The part of the state that the smoother and the emitter read and write.\<close>

definition smootherView :: "engine \<Rightarrow> (nat \<rightharpoonup> nat list) \<times> nat list \<times> nat list \<times> string list" where
  "smootherView st =
     (keyDetectionHistory st, smoothedActiveKeys st, hoveredKeyIndices st, currentlyHoveredNotes st)"


text \<open>A hand whose 21 landmarks all lie in the top left corner, outside every key.\<close>

definition zeroLandmark :: landmark where
  "zeroLandmark = \<lparr> lm_x = 0, lm_y = 0, lm_z = 0 \<rparr>"


section \<open>Example inputs for the limiter and the frame function\<close>

text \<open>The entries of the engine state that the callback of one finger reads and writes.\<close>

definition fingerEntry ::
  "fingerId \<Rightarrow> engine \<Rightarrow>
   fingerPos option \<times> int option \<times> nat option \<times> nat option \<times> nat option \<times> int option \<times> int" where
  "fingerEntry f st =
     (previousFingerPositions st f, fingerRestFrames st f, fingerKeyMapping st f,
      fingerPreviousKeys st f, fingerTriggeredKeys st f, fingerTriggerFrames st f, frameCount st)"

text \<open>
  A hand that presses four keys of the example layout on one frame: the thumb on the
  left half of the black key \<open>C#3\<close>, where that key overlaps the white key \<open>C3\<close>, the
  index, middle and ring finger on the white keys \<open>D3\<close>, \<open>E3\<close> and \<open>F3\<close> below the red
  band, the little finger outside the keys. It is frame 10; on frame 8 the little finger
  was seen at the same place and the other four fingers 12 pixels higher, where none of
  them asserted a key (the thumb above the keys, the others on white keys above the red
  band). No key has been asserted on the last three processed frames.
\<close>

definition pressHand :: hand where
  "pressHand = (replicate 21 zeroLandmark)
     [4 := \<lparr> lm_x = 595 / 1280, lm_y = 312 / 720, lm_z = 0 \<rparr>,
      8 := \<lparr> lm_x = 620 / 1280, lm_y = 381 / 720, lm_z = 0 \<rparr>,
      12 := \<lparr> lm_x = 660 / 1280, lm_y = 381 / 720, lm_z = 0 \<rparr>,
      16 := \<lparr> lm_x = 700 / 1280, lm_y = 381 / 720, lm_z = 0 \<rparr>,
      20 := \<lparr> lm_x = 900 / 1280, lm_y = 600 / 720, lm_z = 0 \<rparr>]"

definition pressEngine :: engine where
  "pressEngine = \<lparr> frameCount = 10,
     previousFingerPositions =
       [(0, 0) \<mapsto> \<lparr> pos_x = 595, pos_y = 300, pos_frame = 8 \<rparr>,
        (0, 1) \<mapsto> \<lparr> pos_x = 620, pos_y = 369, pos_frame = 8 \<rparr>,
        (0, 2) \<mapsto> \<lparr> pos_x = 660, pos_y = 369, pos_frame = 8 \<rparr>,
        (0, 3) \<mapsto> \<lparr> pos_x = 700, pos_y = 369, pos_frame = 8 \<rparr>,
        (0, 4) \<mapsto> \<lparr> pos_x = 900, pos_y = 600, pos_frame = 8 \<rparr>],
     fingerKeyMapping = Map.empty,
     fingerRestFrames =
       [(0, 0) \<mapsto> 0, (0, 1) \<mapsto> 0, (0, 2) \<mapsto> 0, (0, 3) \<mapsto> 0, (0, 4) \<mapsto> 6],
     fingerPreviousKeys = Map.empty,
     fingerTriggeredKeys = Map.empty,
     fingerTriggerFrames = Map.empty,
     keyDetectionHistory =
       [0 \<mapsto> [0, 0, 0], 1 \<mapsto> [0, 0, 0], 2 \<mapsto> [0, 0, 0], 3 \<mapsto> [0, 0, 0], 4 \<mapsto> [0, 0, 0]],
     smoothedActiveKeys = [], hoveredKeyIndices = [],
     currentlyHoveredNotes = [] \<rparr>"




section \<open>Transform round trip\<close>

lemma forward_transform:
  assumes "getKeysBoundingBox keys = Some kb"
  shows "ctm_apply (drawAllKeys_ctm cv tr keys) p =
    (cos (rotation tr * pi / 180) * (scale tr * (if flipH tr then -1 else 1)) * (fst p - centerX kb)
     - sin (rotation tr * pi / 180) * (scale tr * (if flipV tr then -1 else 1)) * (snd p - centerY kb)
     + (width cv / 2 + translateX tr),
     sin (rotation tr * pi / 180) * (scale tr * (if flipH tr then -1 else 1)) * (fst p - centerX kb)
     + cos (rotation tr * pi / 180) * (scale tr * (if flipV tr then -1 else 1)) * (snd p - centerY kb)
     + (height cv / 2 + translateY tr))"
  using assms
  by (simp add: drawAllKeys_ctm_def ctm_apply_def ctx_translate_def ctx_rotate_def ctx_scale_def
      ctm_identity_def Let_def algebra_simps)

text \<open>
  C5. A layout point drawn through the matrix that drawAllKeys sets up and then passed to
  transformPointForDetection comes back unchanged, for every canvas size, translation,
  rotation angle, pair of flip flags and key layout, provided the scale is not zero
  (in particular for every positive scale). Arithmetic is exact here.
\<close>

theorem transform_round_trip:
  assumes "scale tr \<noteq> 0"
  shows "transformPointForDetection cv tr keys (ctm_apply (drawAllKeys_ctm cv tr keys) p) = p"
proof (cases "getKeysBoundingBox keys")
  case None
  then show ?thesis
    by (simp add: transformPointForDetection_def drawAllKeys_ctm_def ctm_apply_def ctm_identity_def)
next
  case (Some kb)
  define c where "c = cos (rotation tr * pi / 180)"
  define s where "s = sin (rotation tr * pi / 180)"
  define kx where "kx = scale tr * (if flipH tr then -1 else 1)"
  define ky where "ky = scale tr * (if flipV tr then -1 else 1)"
  define u where "u = fst p - centerX kb"
  define v where "v = snd p - centerY kb"
  have cs: "c * c + s * s = 1"
    unfolding c_def s_def by (simp add: power2_eq_square[symmetric])
  have X: "(c * (kx * u) - s * (ky * v)) * c + (s * (kx * u) + c * (ky * v)) * s = kx * u"
  proof -
    have "(c * (kx * u) - s * (ky * v)) * c + (s * (kx * u) + c * (ky * v)) * s
          = kx * u * (c * c + s * s)"
      by (simp add: algebra_simps)
    with cs show ?thesis by simp
  qed
  have Y: "(s * (kx * u) + c * (ky * v)) * c - (c * (kx * u) - s * (ky * v)) * s = ky * v"
  proof -
    have "(s * (kx * u) + c * (ky * v)) * c - (c * (kx * u) - s * (ky * v)) * s
          = ky * v * (c * c + s * s)"
      by (simp add: algebra_simps)
    with cs show ?thesis by simp
  qed
  have fx: "(if flipH tr then - (kx * u / scale tr) else kx * u / scale tr) = u"
    using assms by (simp add: kx_def)
  have fy: "(if flipV tr then - (ky * v / scale tr) else ky * v / scale tr) = v"
    using assms by (simp add: ky_def)
  have "transformPointForDetection cv tr keys (ctm_apply (drawAllKeys_ctm cv tr keys) p)
      = ((if flipH tr
          then - (((c * (kx * u) - s * (ky * v)) * c + (s * (kx * u) + c * (ky * v)) * s) / scale tr)
          else ((c * (kx * u) - s * (ky * v)) * c + (s * (kx * u) + c * (ky * v)) * s) / scale tr)
           + centerX kb,
         (if flipV tr
          then - (((s * (kx * u) + c * (ky * v)) * c - (c * (kx * u) - s * (ky * v)) * s) / scale tr)
          else ((s * (kx * u) + c * (ky * v)) * c - (c * (kx * u) - s * (ky * v)) * s) / scale tr)
           + centerY kb)"
    unfolding forward_transform[OF Some] transformPointForDetection_def Some
    by (simp add: Let_def c_def s_def kx_def ky_def u_def v_def algebra_simps)
  also have "\<dots> = (u + centerX kb, v + centerY kb)"
    unfolding X Y fx fy ..
  also have "\<dots> = p" by (simp add: u_def v_def)
  finally show ?thesis .
qed

theorem transform_round_trip_witness:
  "scale \<lparr> scale = 2, translateX = 30, translateY = -7, rotation = 90,
           flipH = True, flipV = False \<rparr> \<noteq> 0 \<and>
   transformPointForDetection \<lparr> width = 1280, height = 720 \<rparr>
     \<lparr> scale = 2, translateX = 30, translateY = -7, rotation = 90, flipH = True, flipV = False \<rparr>
     [\<lparr> key_note = ''C3'', polygon = [(0, 0), (10, 0), (10, 10), (0, 10)], ktype = White \<rparr>]
     (ctm_apply
        (drawAllKeys_ctm \<lparr> width = 1280, height = 720 \<rparr>
           \<lparr> scale = 2, translateX = 30, translateY = -7, rotation = 90,
             flipH = True, flipV = False \<rparr>
           [\<lparr> key_note = ''C3'', polygon = [(0, 0), (10, 0), (10, 10), (0, 10)], ktype = White \<rparr>])
        (3, 4)) = (3, 4)"
  using transform_round_trip
    [of "\<lparr> scale = 2, translateX = 30, translateY = -7, rotation = 90,
           flipH = True, flipV = False \<rparr>"
        "\<lparr> width = 1280, height = 720 \<rparr>"
        "[\<lparr> key_note = ''C3'', polygon = [(0, 0), (10, 0), (10, 10), (0, 10)], ktype = White \<rparr>]"
        "(3, 4)"]
  by simp

section \<open>Evaluating the example inputs\<close>

lemma demo_bounds: "getKeysBoundingBox demoKeys = Some demoBounds"
  by (simp add: getKeysBoundingBox_def demoKeys_def demoBounds_def)

lemma demo_transform: "transformPointForDetection demoCanvas demoTransform demoKeys p = p"
  by (simp add: transformPointForDetection_def demo_bounds demoBounds_def demoCanvas_def demoTransform_def Let_def)

lemmas hit_defs = collectFingerKeys_def keyCandidate_def demoKeys_def demoBounds_def defaultConfig_def
     inside_inline_def crossing_loop_def prev_index_def intersect_inline_def lt_quotient_def Let_def
     isInsideRedBuffer_def isAboveRedLine_def isBelowRedLine_def upperRedBand_def lowerRedBand_def RED_LINE_BUFFER_def
     upt_rec nth_Cons' selectKey_def

lemmas motion_defs = hasMovement_def hasDownwardMovement_def isAtRest_def restFrames_def

lemma sqrt144: "sqrt 144 = 12"
  by (rule real_sqrt_unique) simp_all

lemma sel_same: "selectedKey defaultConfig demoCanvas demoTransform demoKeys demoEngine (0, 2) False (620, 400) = Some 2"
  by (simp add: selectedKey_def demo_transform demo_bounds motion_defs demoEngine_def)
     (simp add: hit_defs)

lemma sel_other: "selectedKey defaultConfig demoCanvas demoTransform demoKeys demoEngine (0, 2) False (660, 400) = Some 3"
  by (simp add: selectedKey_def demo_transform demo_bounds motion_defs demoEngine_def)
     (simp add: hit_defs)

lemma sel_moved: "selectedKey defaultConfig demoCanvas demoTransform demoKeys demoEngine (0, 2) False (632, 400) = Some 2"
  by (simp add: selectedKey_def demo_transform demo_bounds motion_defs demoEngine_def)
     (simp add: hit_defs sqrt144)

lemma sel_elapsed: "selectedKey defaultConfig demoCanvas demoTransform demoKeys elapsedEngine (0, 2) False (620, 400) = Some 2"
  by (simp add: selectedKey_def demo_transform demo_bounds motion_defs elapsedEngine_def)
     (simp add: hit_defs)

section \<open>Trigger decision\<close>

lemma trackMotion_fields [simp]:
  "fingerTriggeredKeys (trackMotion cfg st f t) = fingerTriggeredKeys st"
  "fingerTriggerFrames (trackMotion cfg st f t) = fingerTriggerFrames st"
  "fingerPreviousKeys (trackMotion cfg st f t) = fingerPreviousKeys st"
  "fingerKeyMapping (trackMotion cfg st f t) = fingerKeyMapping st"
  "frameCount (trackMotion cfg st f t) = frameCount st"
  by (simp_all add: trackMotion_def)

lemma trackMotion_decisions [simp]:
  "keyChanged (trackMotion cfg st f t) g k = keyChanged st g k"
  "isInCooldown cfg (trackMotion cfg st f t) g = isInCooldown cfg st g"
  "framesSinceTrigger (trackMotion cfg st f t) g = framesSinceTrigger st g"
  "canTrigger cfg (trackMotion cfg st f t) g k = canTrigger cfg st g k"
  "shouldTrigger cfg (trackMotion cfg st f t) g k m d = shouldTrigger cfg st g k m d"
  by (simp_all add: keyChanged_def isInCooldown_def framesSinceTrigger_def canTrigger_def shouldTrigger_def)

lemma processFinger_selected:
  assumes "selectedKey cfg cv tr keys st fingerId thumb xy = Some k"
  shows "processFinger cfg cv tr keys fingerId thumb xy (st, raw) =
         triggerDecision cfg fingerId k
           (hasMovement cfg st fingerId (transformPointForDetection cv tr keys xy))
           (hasDownwardMovement cfg st fingerId (transformPointForDetection cv tr keys xy))
           (isAtRest cfg st fingerId (transformPointForDetection cv tr keys xy))
           (trackMotion cfg st fingerId (transformPointForDetection cv tr keys xy), raw)"
  using assms
  by (auto simp: selectedKey_def processFinger_def Let_def split: if_splits option.splits)

lemma shouldTrigger_iff:
  "shouldTrigger cfg st f k mov down \<longleftrightarrow>
     (\<not> isInCooldown cfg st f \<and> (mov \<or> down)) \<or> keyChanged st f k"
  by (auto simp: shouldTrigger_def canTrigger_def isInCooldown_def Let_def)

lemma processFinger_raw:
  assumes "selectedKey cfg cv tr keys st fingerId thumb xy = Some k"
  shows "snd (processFinger cfg cv tr keys fingerId thumb xy (st, raw)) =
    (if (\<not> isInCooldown cfg st fingerId \<and>
         (hasMovement cfg st fingerId (transformPointForDetection cv tr keys xy) \<or>
          hasDownwardMovement cfg st fingerId (transformPointForDetection cv tr keys xy))) \<or>
        keyChanged st fingerId k
     then set_add raw k
     else if fingerKeyMapping st fingerId = Some k \<and>
             hasDownwardMovement cfg st fingerId (transformPointForDetection cv tr keys xy) \<and>
             \<not> isAtRest cfg st fingerId (transformPointForDetection cv tr keys xy)
     then set_add raw k else raw)"
  unfolding processFinger_selected[OF assms]
  by (auto simp: triggerDecision_def shouldTrigger_iff Let_def)

text \<open>
  C1. For a finger for which a key \<open>k\<close> is selected this frame (so the finger has passed
  the rest gate): if \<open>k\<close> is the finger's last-triggered key, fewer than
  TRIGGER\_COOLDOWN\_FRAMES frames have passed since that trigger, and the finger has no
  movement, no downward movement and no key change, then the finger leaves
  \<open>rawDetectedKeys\<close> as it was; and if \<open>k\<close> differs from the finger's previously assigned
  key, then \<open>k\<close> is in \<open>rawDetectedKeys\<close> afterwards, whatever the cooldown.
\<close>

theorem trigger_cooldown:
  assumes "selectedKey cfg cv tr keys st fingerId thumb xy = Some k"
  shows "(fingerTriggeredKeys st fingerId = Some k \<and>
          framesSinceTrigger st fingerId < TRIGGER_COOLDOWN_FRAMES cfg \<and>
          \<not> hasMovement cfg st fingerId (transformPointForDetection cv tr keys xy) \<and>
          \<not> hasDownwardMovement cfg st fingerId (transformPointForDetection cv tr keys xy) \<and>
          \<not> keyChanged st fingerId k
          \<longrightarrow> snd (processFinger cfg cv tr keys fingerId thumb xy (st, raw)) = raw) \<and>
         (keyChanged st fingerId k
          \<longrightarrow> k \<in> set (snd (processFinger cfg cv tr keys fingerId thumb xy (st, raw))))"
  unfolding processFinger_selected[OF assms]
  by (auto simp: triggerDecision_def shouldTrigger_iff set_add_def Let_def)

theorem trigger_cooldown_witness:
  "selectedKey defaultConfig demoCanvas demoTransform demoKeys demoEngine (0, 2) False (620, 400) = Some 2 \<and>
   fingerTriggeredKeys demoEngine (0, 2) = Some 2 \<and>
   framesSinceTrigger demoEngine (0, 2) < TRIGGER_COOLDOWN_FRAMES defaultConfig \<and>
   \<not> hasMovement defaultConfig demoEngine (0, 2) (transformPointForDetection demoCanvas demoTransform demoKeys (620, 400)) \<and>
   \<not> hasDownwardMovement defaultConfig demoEngine (0, 2) (transformPointForDetection demoCanvas demoTransform demoKeys (620, 400)) \<and>
   \<not> keyChanged demoEngine (0, 2) 2 \<and>
   snd (processFinger defaultConfig demoCanvas demoTransform demoKeys (0, 2) False (620, 400) (demoEngine, [])) = [] \<and>
   selectedKey defaultConfig demoCanvas demoTransform demoKeys demoEngine (0, 2) False (660, 400) = Some 3 \<and>
   isInCooldown defaultConfig demoEngine (0, 2) \<and>
   keyChanged demoEngine (0, 2) 3 \<and>
   3 \<in> set (snd (processFinger defaultConfig demoCanvas demoTransform demoKeys (0, 2) False (660, 400) (demoEngine, [])))"
proof -
  have h: "fingerTriggeredKeys demoEngine (0, 2) = Some 2"
    "framesSinceTrigger demoEngine (0, 2) < TRIGGER_COOLDOWN_FRAMES defaultConfig"
    "\<not> hasMovement defaultConfig demoEngine (0, 2) (transformPointForDetection demoCanvas demoTransform demoKeys (620, 400))"
    "\<not> hasDownwardMovement defaultConfig demoEngine (0, 2) (transformPointForDetection demoCanvas demoTransform demoKeys (620, 400))"
    "\<not> keyChanged demoEngine (0, 2) 2"
    "isInCooldown defaultConfig demoEngine (0, 2)"
    "keyChanged demoEngine (0, 2) 3"
    by (simp_all add: demoEngine_def framesSinceTrigger_def defaultConfig_def demo_transform
        hasMovement_def hasDownwardMovement_def keyChanged_def isInCooldown_def)
  show ?thesis
    using trigger_cooldown[OF sel_same, of "[]"] trigger_cooldown[OF sel_other, of "[]"] h sel_same sel_other
    by simp
qed

text \<open>
  C4, as the code has it. For a finger with selected key \<open>k\<close>: if the finger is not in
  cooldown and moves or presses downward, or if \<open>k\<close> differs from its previously assigned
  key, then \<open>k\<close> is asserted, assigned key, previous key, triggered key and trigger frame
  are set and the rest counter is 0. In every other case the bookkeeping is left alone,
  and \<open>k\<close> is asserted exactly when it is the finger's mapped key, the finger presses
  downward and is not at rest.
\<close>

theorem trigger_assertion:
  assumes "selectedKey cfg cv tr keys st fingerId thumb xy = Some k"
  shows
   "(let t = transformPointForDetection cv tr keys xy;
         mov = hasMovement cfg st fingerId t;
         down = hasDownwardMovement cfg st fingerId t;
         res = processFinger cfg cv tr keys fingerId thumb xy (st, raw)
     in ((\<not> isInCooldown cfg st fingerId \<and> (mov \<or> down)) \<or> keyChanged st fingerId k \<longrightarrow>
           k \<in> set (snd res) \<and>
           fingerKeyMapping (fst res) fingerId = Some k \<and>
           fingerPreviousKeys (fst res) fingerId = Some k \<and>
           fingerTriggeredKeys (fst res) fingerId = Some k \<and>
           fingerTriggerFrames (fst res) fingerId = Some (frameCount st) \<and>
           fingerRestFrames (fst res) fingerId = Some 0) \<and>
        (\<not> ((\<not> isInCooldown cfg st fingerId \<and> (mov \<or> down)) \<or> keyChanged st fingerId k) \<longrightarrow>
           snd res = (if fingerKeyMapping st fingerId = Some k \<and> down \<and> \<not> isAtRest cfg st fingerId t
                      then set_add raw k else raw) \<and>
           fingerKeyMapping (fst res) fingerId = fingerKeyMapping st fingerId \<and>
           fingerPreviousKeys (fst res) fingerId = fingerPreviousKeys st fingerId \<and>
           fingerTriggeredKeys (fst res) fingerId = fingerTriggeredKeys st fingerId \<and>
           fingerTriggerFrames (fst res) fingerId = fingerTriggerFrames st fingerId))"
  unfolding processFinger_selected[OF assms] Let_def
  by (auto simp: triggerDecision_def shouldTrigger_iff set_add_def Let_def)

theorem trigger_assertion_witness:
  "selectedKey defaultConfig demoCanvas demoTransform demoKeys demoEngine (0, 2) False (660, 400) = Some 3 \<and>
   keyChanged demoEngine (0, 2) 3 \<and>
   3 \<in> set (snd (processFinger defaultConfig demoCanvas demoTransform demoKeys (0, 2) False (660, 400) (demoEngine, []))) \<and>
   fingerTriggerFrames (fst (processFinger defaultConfig demoCanvas demoTransform demoKeys (0, 2) False (660, 400) (demoEngine, []))) (0, 2) = Some 10 \<and>
   fingerRestFrames (fst (processFinger defaultConfig demoCanvas demoTransform demoKeys (0, 2) False (660, 400) (demoEngine, []))) (0, 2) = Some 0 \<and>
   selectedKey defaultConfig demoCanvas demoTransform demoKeys elapsedEngine (0, 2) False (620, 400) = Some 2 \<and>
   \<not> isInCooldown defaultConfig elapsedEngine (0, 2) \<and>
   \<not> keyChanged elapsedEngine (0, 2) 2 \<and>
   snd (processFinger defaultConfig demoCanvas demoTransform demoKeys (0, 2) False (620, 400) (elapsedEngine, [])) = [] \<and>
   fingerTriggerFrames (fst (processFinger defaultConfig demoCanvas demoTransform demoKeys (0, 2) False (620, 400) (elapsedEngine, []))) (0, 2) = Some 2"
proof -
  have h: "keyChanged demoEngine (0, 2) 3" "\<not> keyChanged elapsedEngine (0, 2) 2"
    "\<not> isInCooldown defaultConfig elapsedEngine (0, 2)"
    "\<not> hasMovement defaultConfig elapsedEngine (0, 2) (transformPointForDetection demoCanvas demoTransform demoKeys (620, 400))"
    "\<not> hasDownwardMovement defaultConfig elapsedEngine (0, 2) (transformPointForDetection demoCanvas demoTransform demoKeys (620, 400))"
    "frameCount demoEngine = 10" "fingerTriggerFrames elapsedEngine (0, 2) = Some 2"
    by (simp_all add: keyChanged_def demoEngine_def elapsedEngine_def isInCooldown_def framesSinceTrigger_def
        defaultConfig_def demo_transform hasMovement_def hasDownwardMovement_def)
  show ?thesis
    using trigger_assertion[OF sel_other, of "[]"] trigger_assertion[OF sel_elapsed, of "[]"] h sel_other sel_elapsed
    by (simp add: Let_def)
qed

text \<open>
  C4 as stated fails twice. With the cooldown over, no key change and no movement, the
  selected key 2 is not asserted; and horizontal movement of 12 pixels on the same key
  during the cooldown does not assert it either.
\<close>

theorem trigger_assertion_counterexample:
  "selectedKey defaultConfig demoCanvas demoTransform demoKeys elapsedEngine (0, 2) False (620, 400) = Some 2 \<and>
   \<not> isInCooldown defaultConfig elapsedEngine (0, 2) \<and>
   2 \<notin> set (snd (processFinger defaultConfig demoCanvas demoTransform demoKeys (0, 2) False (620, 400) (elapsedEngine, []))) \<and>
   selectedKey defaultConfig demoCanvas demoTransform demoKeys demoEngine (0, 2) False (632, 400) = Some 2 \<and>
   hasMovement defaultConfig demoEngine (0, 2) (transformPointForDetection demoCanvas demoTransform demoKeys (632, 400)) \<and>
   isInCooldown defaultConfig demoEngine (0, 2) \<and>
   2 \<notin> set (snd (processFinger defaultConfig demoCanvas demoTransform demoKeys (0, 2) False (632, 400) (demoEngine, [])))"
proof -
  have a: "\<not> isInCooldown defaultConfig elapsedEngine (0, 2)"
    by (simp add: isInCooldown_def framesSinceTrigger_def elapsedEngine_def defaultConfig_def)
  have b: "2 \<notin> set (snd (processFinger defaultConfig demoCanvas demoTransform demoKeys (0, 2) False (620, 400) (elapsedEngine, [])))"
  proof -
    have "\<not> hasMovement defaultConfig elapsedEngine (0, 2) (transformPointForDetection demoCanvas demoTransform demoKeys (620, 400))"
      "\<not> hasDownwardMovement defaultConfig elapsedEngine (0, 2) (transformPointForDetection demoCanvas demoTransform demoKeys (620, 400))"
      "\<not> keyChanged elapsedEngine (0, 2) 2"
      by (simp_all add: demo_transform hasMovement_def hasDownwardMovement_def keyChanged_def
          elapsedEngine_def defaultConfig_def)
    then show ?thesis
      by (simp add: processFinger_raw[OF sel_elapsed])
  qed
  have c: "hasMovement defaultConfig demoEngine (0, 2) (transformPointForDetection demoCanvas demoTransform demoKeys (632, 400))"
    by (simp add: demo_transform hasMovement_def demoEngine_def defaultConfig_def sqrt144)
  have d: "isInCooldown defaultConfig demoEngine (0, 2)"
    by (simp add: isInCooldown_def framesSinceTrigger_def demoEngine_def defaultConfig_def)
  have e: "2 \<notin> set (snd (processFinger defaultConfig demoCanvas demoTransform demoKeys (0, 2) False (632, 400) (demoEngine, [])))"
  proof -
    have "\<not> hasDownwardMovement defaultConfig demoEngine (0, 2) (transformPointForDetection demoCanvas demoTransform demoKeys (632, 400))"
      "\<not> keyChanged demoEngine (0, 2) 2"
      by (simp_all add: demo_transform hasDownwardMovement_def keyChanged_def
          demoEngine_def defaultConfig_def)
    with d show ?thesis
      by (simp add: processFinger_raw[OF sel_moved])
  qed
  show ?thesis using sel_elapsed a b sel_moved c d e by simp
qed

section \<open>Band filter\<close>

lemma fold_min_le: "fold (\<lambda>pt m. min m (f pt)) ps (a::real) \<le> a"
  by (induction ps arbitrary: a) (auto intro: order_trans[OF _ min.cobounded1])

lemma fold_max_ge: "a \<le> fold (\<lambda>pt m. max m (f pt)) ps (a::real)"
  by (induction ps arbitrary: a) (auto intro: order_trans[OF max.cobounded1])

lemma bounds_height_nonneg:
  assumes "getKeysBoundingBox keys = Some kb"
  shows "0 \<le> bheight kb"
proof (cases "concat (map polygon keys)")
  case Nil
  with assms show ?thesis by (simp add: getKeysBoundingBox_def)
next
  case (Cons p ps)
  have "fold (\<lambda>pt m. min m (snd pt)) ps (snd p) \<le> snd p" by (rule fold_min_le)
  moreover have "snd p \<le> fold (\<lambda>pt m. max m (snd pt)) ps (snd p)" by (rule fold_max_ge)
  ultimately have "0 \<le> fold (\<lambda>pt m. max m (snd pt)) ps (snd p) - fold (\<lambda>pt m. min m (snd pt)) ps (snd p)"
    by simp
  with assms Cons show ?thesis
    by (auto simp: getKeysBoundingBox_def Let_def)
qed

lemma bands_ordered:
  assumes "getKeysBoundingBox keys = Some kb"
  shows "upperRedBand cfg kb \<le> lowerRedBand cfg kb"
  using bounds_height_nonneg[OF assms]
  by (simp add: upperRedBand_def lowerRedBand_def RED_LINE_BUFFER_def Let_def)

lemma keyCandidate_index: "c \<in> set (keyCandidate cfg keys kb thumb t i) \<Longrightarrow> index c = i"
  by (auto simp: keyCandidate_def Let_def split: if_splits)

lemma candidate_index_iff:
  "i \<in> index ` set (collectFingerKeys cfg keys kb thumb t) \<longleftrightarrow>
     i < length keys \<and> keyCandidate cfg keys kb thumb t i \<noteq> []"
proof
  assume "i \<in> index ` set (collectFingerKeys cfg keys kb thumb t)"
  then obtain c j where "j < length keys" "c \<in> set (keyCandidate cfg keys kb thumb t j)" "index c = i"
    by (auto simp: collectFingerKeys_def)
  then show "i < length keys \<and> keyCandidate cfg keys kb thumb t i \<noteq> []"
    using keyCandidate_index by fastforce
next
  assume a: "i < length keys \<and> keyCandidate cfg keys kb thumb t i \<noteq> []"
  then obtain c where c: "c \<in> set (keyCandidate cfg keys kb thumb t i)"
    by (cases "keyCandidate cfg keys kb thumb t i") auto
  then have "index c = i" by (rule keyCandidate_index)
  moreover have "c \<in> set (collectFingerKeys cfg keys kb thumb t)"
    using a c by (auto simp: collectFingerKeys_def)
  ultimately show "i \<in> index ` set (collectFingerKeys cfg keys kb thumb t)" by force
qed

text \<open>
  C7. For a transformed finger point \<open>t\<close> inside the polygon of key \<open>i\<close>: above the upper
  edge of the dead-band the key is a candidate exactly when it is black, below the lower
  edge exactly when it is white, and inside the dead-band it is a candidate whatever its
  type.
\<close>

theorem band_filter:
  assumes "getKeysBoundingBox keys = Some kb"
    and "i < length keys"
    and "inside_inline (polygon (keys ! i)) (fst t) (snd t)"
  shows "(isAboveRedLine cfg kb (snd t) \<longrightarrow>
            (i \<in> index ` set (collectFingerKeys cfg keys kb thumb t) \<longleftrightarrow> ktype (keys ! i) = Black)) \<and>
         (isBelowRedLine cfg kb (snd t) \<longrightarrow>
            (i \<in> index ` set (collectFingerKeys cfg keys kb thumb t) \<longleftrightarrow> ktype (keys ! i) = White)) \<and>
         (isInsideRedBuffer cfg kb (snd t) \<longrightarrow>
            i \<in> index ` set (collectFingerKeys cfg keys kb thumb t))"
proof -
  have excl: "\<not> (isAboveRedLine cfg kb (snd t) \<and> isBelowRedLine cfg kb (snd t))"
    using bands_ordered[OF assms(1), of cfg] by (auto simp: isAboveRedLine_def isBelowRedLine_def)
  have wb: "ktype (keys ! i) \<noteq> Black \<longleftrightarrow> ktype (keys ! i) = White"
    by (cases "ktype (keys ! i)") auto
  show ?thesis
    unfolding candidate_index_iff using assms(2,3) excl wb
    by (auto simp: keyCandidate_def isInsideRedBuffer_def Let_def)
qed

lemmas poly_defs = demoKeys_def inside_inline_def crossing_loop_def prev_index_def intersect_inline_def
  lt_quotient_def Let_def upt_rec nth_Cons'
lemmas band_defs = isInsideRedBuffer_def isAboveRedLine_def isBelowRedLine_def upperRedBand_def
  lowerRedBand_def RED_LINE_BUFFER_def demoBounds_def defaultConfig_def Let_def

theorem band_filter_witness:
  "getKeysBoundingBox demoKeys = Some demoBounds \<and>
   1 < length demoKeys \<and> 2 < length demoKeys \<and>
   inside_inline (polygon (demoKeys ! 1)) 605 340 \<and>
   inside_inline (polygon (demoKeys ! 2)) 605 340 \<and>
   isAboveRedLine defaultConfig demoBounds 340 \<and>
   1 \<in> index ` set (collectFingerKeys defaultConfig demoKeys demoBounds False (605, 340)) \<and>
   2 \<notin> index ` set (collectFingerKeys defaultConfig demoKeys demoBounds False (605, 340)) \<and>
   inside_inline (polygon (demoKeys ! 2)) 620 400 \<and>
   isBelowRedLine defaultConfig demoBounds 400 \<and>
   2 \<in> index ` set (collectFingerKeys defaultConfig demoKeys demoBounds False (620, 400)) \<and>
   inside_inline (polygon (demoKeys ! 2)) 620 378 \<and>
   isInsideRedBuffer defaultConfig demoBounds 378 \<and>
   2 \<in> index ` set (collectFingerKeys defaultConfig demoKeys demoBounds False (620, 378))"
proof -
  have len: "1 < length demoKeys" "2 < length demoKeys"
    by (simp_all add: demoKeys_def)
  have in1: "inside_inline (polygon (demoKeys ! 1)) (fst (605, 340)) (snd (605, 340))"
    and in2: "inside_inline (polygon (demoKeys ! 2)) (fst (605, 340)) (snd (605, 340))"
    and in3: "inside_inline (polygon (demoKeys ! 2)) (fst (620, 400)) (snd (620, 400))"
    and in4: "inside_inline (polygon (demoKeys ! 2)) (fst (620, 378)) (snd (620, 378))"
    by (simp_all add: poly_defs)
  have bands: "isAboveRedLine defaultConfig demoBounds 340"
    "isBelowRedLine defaultConfig demoBounds 400"
    "isInsideRedBuffer defaultConfig demoBounds 378"
    by (simp_all add: band_defs)
  have ty: "ktype (demoKeys ! 1) = Black" "ktype (demoKeys ! 2) = White"
    by (simp_all add: demoKeys_def)
  show ?thesis
    using band_filter[OF demo_bounds len(1) in1, of defaultConfig False]
      band_filter[OF demo_bounds len(2) in2, of defaultConfig False]
      band_filter[OF demo_bounds len(2) in3, of defaultConfig False]
      band_filter[OF demo_bounds len(2) in4, of defaultConfig False]
      demo_bounds len in1 in2 in3 in4 bands ty
    by simp
qed

section \<open>Divisions in the point-in-polygon tests\<close>

lemma straddles_not_level: "straddles ty vi vj \<Longrightarrow> snd vj - snd vi \<noteq> 0"
  by (auto simp: straddles_def)

text \<open>
  C8, as the code has it. The inline test of the per-finger loop adds no epsilon: it
  divides by \<open>yj - yi\<close> only for an edge whose end points lie strictly on different
  sides of the point's y, so none of its divisors is zero and its result is the plain
  crossing test. \<open>isPointInPolygon\<close> divides by \<open>yj - yi + 1e-10\<close>, and never for a
  horizontal edge, which is never counted as a crossing. Arithmetic is exact here.
\<close>

theorem division_guard:
  "(\<forall>d\<in>set (divisors_inline poly ty). d \<noteq> 0) \<and>
   (intersect_inline tx ty vi vj \<longleftrightarrow>
      straddles ty vi vj \<and>
      tx < (fst vj - fst vi) * (ty - snd vi) / (snd vj - snd vi) + fst vi) \<and>
   (\<forall>d\<in>set (divisors_helper poly ty). d \<noteq> EPS) \<and>
   (intersect_helper tx ty vi vj \<longrightarrow> snd vi \<noteq> snd vj)"
proof -
  have "\<forall>d\<in>set (divisors_inline poly ty). d \<noteq> 0"
    by (auto simp: divisors_inline_def dest: straddles_not_level)
  moreover have "\<forall>d\<in>set (divisors_helper poly ty). d \<noteq> EPS"
    by (auto simp: divisors_helper_def dest: straddles_not_level)
  moreover have "intersect_inline tx ty vi vj \<longleftrightarrow>
      straddles ty vi vj \<and>
      tx < (fst vj - fst vi) * (ty - snd vi) / (snd vj - snd vi) + fst vi"
    by (auto simp: intersect_inline_def straddles_def lt_quotient_def Let_def)
  moreover have "intersect_helper tx ty vi vj \<longrightarrow> snd vi \<noteq> snd vj"
    by (auto simp: intersect_helper_def Let_def)
  ultimately show ?thesis by blast
qed

lemmas sliver_defs = sliverPolygon_def divisors_inline_def divisors_helper_def straddles_def
  prev_index_def EPS_def upt_rec nth_Cons'

lemma sliver_divisors:
  "divisors_inline sliverPolygon (EPS / 2) = [- EPS, 10 + EPS]"
  "divisors_helper sliverPolygon (EPS / 2) = [0, 10 + 2 * EPS]"
  by (simp_all add: sliver_defs)

theorem division_guard_witness:
  "divisors_inline sliverPolygon (EPS / 2) = [- EPS, 10 + EPS] \<and>
   0 \<notin> set (divisors_inline sliverPolygon (EPS / 2)) \<and>
   divisors_helper sliverPolygon (EPS / 2) = [0, 10 + 2 * EPS] \<and>
   EPS \<notin> set (divisors_helper sliverPolygon (EPS / 2)) \<and>
   intersect_helper (- 1) (EPS / 2) (0, 0) (0, 2) \<and> snd (0 :: real, 0 :: real) \<noteq> snd (0 :: real, 2 :: real) \<and>
   \<not> intersect_inline 1000 (EPS / 2) (10, EPS) (0, 0)"
proof -
  have h: "intersect_helper (- 1) (EPS / 2) (0, 0) (0, 2)"
    by (simp add: intersect_helper_def lt_quotient_def EPS_def)
  have i: "\<not> 1000 < (fst (0::real, 0::real) - fst (10::real, EPS)) * (EPS / 2 - snd (10::real, EPS)) / (snd (0::real, 0::real) - snd (10::real, EPS)) + fst (10::real, EPS)"
    by (simp add: EPS_def)
  show ?thesis
    using division_guard[of sliverPolygon "EPS / 2" "- 1" "(0, 0)" "(0, 2)"]
      division_guard[of sliverPolygon "EPS / 2" 1000 "(10, EPS)" "(0, 0)"] h i sliver_divisors
    by simp
qed

text \<open>
  C8 as stated fails on the triangle above at the point \<open>(1000, 5e-11)\<close>. The inline
  test divides by \<open>-1e-10\<close> and by \<open>10 + 1e-10\<close>, without a guard. \<open>isPointInPolygon\<close>
  divides by \<open>0\<close>: the \<open>1e-10\<close> cancels the edge's extent, the quotient is \<open>Infinity\<close>,
  and the point, far to the right of the triangle, is reported inside.
\<close>

theorem division_guard_counterexample:
  "divisors_inline sliverPolygon (EPS / 2) = [- EPS, 10 + EPS] \<and>
   divisors_helper sliverPolygon (EPS / 2) = [0, 10 + 2 * EPS] \<and>
   isPointInPolygon demoCanvas demoTransform [] 1000 (EPS / 2) sliverPolygon \<and>
   \<not> inside_inline sliverPolygon 1000 (EPS / 2)"
proof -
  have "isPointInPolygon demoCanvas demoTransform [] 1000 (EPS / 2) sliverPolygon"
    by (simp add: isPointInPolygon_def transformPointForDetection_def getKeysBoundingBox_def
        crossing_loop_def intersect_helper_def lt_quotient_def sliverPolygon_def prev_index_def
        EPS_def upt_rec nth_Cons' Let_def)
  moreover have "\<not> inside_inline sliverPolygon 1000 (EPS / 2)"
    by (simp add: inside_inline_def crossing_loop_def intersect_inline_def lt_quotient_def
        sliverPolygon_def prev_index_def EPS_def upt_rec nth_Cons' Let_def)
  ultimately show ?thesis using sliver_divisors by simp
qed

section \<open>Detection history\<close>

lemma pushSample_length:
  "length (pushSample n h s) = (if length h < n then length h + 1 else length h)"
  by (auto simp: pushSample_def Let_def)

lemma pushSample_nonempty: "1 \<le> n \<Longrightarrow> pushSample n h s \<noteq> []"
  by (cases h) (auto simp: pushSample_def Let_def)

lemma historyOf_updateKeyHistory:
  "historyOf (updateKeyHistory cfg raw n st) i =
     (if i = n then pushSample (SMOOTHING_FRAMES cfg) (historyOf st n) (if n \<in> set raw then 1 else 0)
      else historyOf st i)"
  by (simp add: updateKeyHistory_def historyOf_def)

lemma historyOf_fold_update:
  "historyOf (fold (updateKeyHistory cfg raw) [0..<n] st) i =
     (if i < n then pushSample (SMOOTHING_FRAMES cfg) (historyOf st i) (if i \<in> set raw then 1 else 0)
      else historyOf st i)"
  by (induction n) (auto simp: historyOf_updateKeyHistory)

lemma historyOf_updateHistory:
  "historyOf (updateHistory cfg keys raw st) i =
     (if i < length keys
      then pushSample (SMOOTHING_FRAMES cfg) (historyOf st i) (if i \<in> set raw then 1 else 0)
      else historyOf st i)"
  by (simp add: updateHistory_def historyOf_fold_update)







section \<open>Hysteresis\<close>

lemma set_add_member [simp]: "x \<in> set (set_add s y) \<longleftrightarrow> x = y \<or> x \<in> set s"
  by (auto simp: set_add_def)

lemma set_delete_member [simp]: "x \<in> set (set_delete s y) \<longleftrightarrow> x \<noteq> y \<and> x \<in> set s"
  by (auto simp: set_delete_def)

lemma smoothKey_active:
  assumes "historyOf st j \<noteq> []"
  shows "isActive i (smoothKey cfg raw j st) =
     (if i = j then hysteresis cfg (detectionRate (historyOf st j)) (isActive j st) else isActive i st)"
  using assms by (auto simp: smoothKey_def isActive_def hysteresis_def Let_def)

lemma smoothKey_history_same:
  assumes "historyOf st j \<noteq> []"
  shows "keyDetectionHistory (smoothKey cfg raw j st) = keyDetectionHistory st"
  using assms by (auto simp: smoothKey_def Let_def)

lemma historyOf_cong: "keyDetectionHistory a = keyDetectionHistory b \<Longrightarrow> historyOf a i = historyOf b i"
  by (simp add: historyOf_def)

lemma fold_smooth:
  assumes "\<forall>j<n. historyOf st j \<noteq> []"
  shows "keyDetectionHistory (fold (smoothKey cfg raw) [0..<n] st) = keyDetectionHistory st \<and>
         (\<forall>i. isActive i (fold (smoothKey cfg raw) [0..<n] st) =
            (if i < n then hysteresis cfg (detectionRate (historyOf st i)) (isActive i st)
             else isActive i st))"
  using assms
proof (induction n)
  case 0
  then show ?case by simp
next
  case (Suc n)
  let ?s = "fold (smoothKey cfg raw) [0..<n] st"
  from Suc have IH: "keyDetectionHistory ?s = keyDetectionHistory st"
    "\<And>i. isActive i ?s = (if i < n then hysteresis cfg (detectionRate (historyOf st i)) (isActive i st)
             else isActive i st)"
    by auto
  have hn: "historyOf ?s n = historyOf st n" using IH(1) by (rule historyOf_cong)
  have ne: "historyOf ?s n \<noteq> []" using Suc.prems hn by simp
  show ?case
    using smoothKey_history_same[OF ne, of cfg raw] smoothKey_active[OF ne, of _ cfg raw] IH hn
    by (auto simp: less_Suc_eq)
qed

lemma active_fold_update:
  "smoothedActiveKeys (fold (updateKeyHistory cfg raw) [0..<n] st) = smoothedActiveKeys st"
  by (induction n) (simp_all add: updateKeyHistory_def)

lemma smoothFrame_key:
  assumes "1 \<le> SMOOTHING_FRAMES cfg" and "i < length keys"
  shows "historyOf (smoothFrame cfg keys raw st) i =
           pushSample (SMOOTHING_FRAMES cfg) (historyOf st i) (if i \<in> set raw then 1 else 0)"
    and "isActive i (smoothFrame cfg keys raw st) =
           hysteresis cfg (detectionRate (pushSample (SMOOTHING_FRAMES cfg) (historyOf st i)
              (if i \<in> set raw then 1 else 0))) (isActive i st)"
proof -
  let ?u = "updateHistory cfg keys raw st"
  have ne: "\<forall>j<length keys. historyOf ?u j \<noteq> []"
    using assms(1) by (simp add: historyOf_updateHistory pushSample_nonempty)
  note f = fold_smooth[OF ne, of cfg raw]
  have act: "isActive i ?u = isActive i st" for i
    by (simp add: isActive_def updateHistory_def active_fold_update)
  show "historyOf (smoothFrame cfg keys raw st) i =
           pushSample (SMOOTHING_FRAMES cfg) (historyOf st i) (if i \<in> set raw then 1 else 0)"
    using f assms(2) historyOf_cong[of "smoothFrame cfg keys raw st" ?u i]
    by (simp add: smoothFrame_def applySmoothing_def historyOf_updateHistory)
  show "isActive i (smoothFrame cfg keys raw st) =
           hysteresis cfg (detectionRate (pushSample (SMOOTHING_FRAMES cfg) (historyOf st i)
              (if i \<in> set raw then 1 else 0))) (isActive i st)"
    using f assms(2) act
    by (simp add: smoothFrame_def applySmoothing_def historyOf_updateHistory)
qed

lemma runFrames_trace:
  assumes "1 \<le> SMOOTHING_FRAMES cfg" and "i < length keys"
  shows "map (isActive i) (runFrames cfg keys raws st) =
         keyTrace cfg (map (\<lambda>r. if i \<in> set r then 1 else 0) raws) (historyOf st i) (isActive i st)"
proof (induction raws arbitrary: st)
  case Nil
  then show ?case by simp
next
  case (Cons r raws)
  show ?case
    using Cons.IH[of "smoothFrame cfg keys r st"] smoothFrame_key[OF assms, of r st]
    by simp
qed

lemma sum_le_length: "binary h \<Longrightarrow> sum_list h \<le> length h"
  by (induction h) (auto simp: binary_def)

lemma binary_push: "binary h \<Longrightarrow> s \<le> 1 \<Longrightarrow> binary (pushSample n h s)"
  by (cases h) (auto simp: binary_def pushSample_def Let_def)

lemma length_push_le: "1 \<le> n \<Longrightarrow> length h \<le> n \<Longrightarrow> length (pushSample n h s) \<le> n"
  by (simp add: pushSample_length)

lemma rate_push_one:
  assumes "binary h" "h \<noteq> []" "length h \<le> n"
  shows "detectionRate h \<le> detectionRate (pushSample n h (Suc 0))"
proof (cases "length h < n")
  case True
  then have p: "pushSample n h (Suc 0) = h @ [Suc 0]" by (simp add: pushSample_def)
  have "real (sum_list h) \<le> real (length h)" using sum_le_length[OF assms(1)] by simp
  moreover have "0 < real (length h)" using assms(2) by simp
  ultimately have "real (sum_list h) / real (length h)
      \<le> real (sum_list (h @ [Suc 0])) / real (length (h @ [Suc 0]))"
    by (simp add: field_simps)
  then show ?thesis unfolding p detectionRate_def .
next
  case False
  with assms(3) have len: "length h = n" by simp
  from assms(2) obtain x xs where h: "h = x # xs" by (cases h) auto
  have p: "pushSample n (x # xs) (Suc 0) = xs @ [Suc 0]" using len h by (auto simp: pushSample_def)
  have "x \<le> 1" using assms(1) h by (simp add: binary_def)
  then have "real (sum_list (x # xs)) \<le> real (sum_list (xs @ [Suc 0]))" by simp
  then have "real (sum_list (x # xs)) / real (length (x # xs))
      \<le> real (sum_list (xs @ [Suc 0])) / real (length (x # xs))"
    by (rule divide_right_mono) simp
  then show ?thesis unfolding h p detectionRate_def by simp
qed

lemma rate_push_zero:
  assumes "h \<noteq> []" "length h \<le> n"
  shows "detectionRate (pushSample n h 0) \<le> detectionRate h"
proof (cases "length h < n")
  case True
  then have p: "pushSample n h 0 = h @ [0]" by (simp add: pushSample_def)
  have "0 < real (length h)" using assms(1) by simp
  then have "real (sum_list (h @ [0])) / real (length (h @ [0]))
      \<le> real (sum_list h) / real (length h)"
    by (simp add: field_simps)
  then show ?thesis unfolding p detectionRate_def .
next
  case False
  with assms(2) have len: "length h = n" by simp
  from assms(1) obtain x xs where h: "h = x # xs" by (cases h) auto
  have p: "pushSample n (x # xs) 0 = xs @ [0]" using len h by (auto simp: pushSample_def)
  have "real (sum_list (xs @ [0])) \<le> real (sum_list (x # xs))" by simp
  then have "real (sum_list (xs @ [0])) / real (length (x # xs))
      \<le> real (sum_list (x # xs)) / real (length (x # xs))"
    by (rule divide_right_mono) simp
  then show ?thesis unfolding h p detectionRate_def by simp
qed

lemma stays_active:
  assumes "1 \<le> SMOOTHING_FRAMES cfg"
  shows "binary h \<Longrightarrow> h \<noteq> [] \<Longrightarrow> length h \<le> SMOOTHING_FRAMES cfg \<Longrightarrow>
         DEACTIVATION_THRESHOLD cfg \<le> detectionRate h \<Longrightarrow>
         keyTrace cfg (replicate m (Suc 0)) h True = replicate m True"
proof (induction m arbitrary: h)
  case 0
  then show ?case by simp
next
  case (Suc m)
  let ?h = "pushSample (SMOOTHING_FRAMES cfg) h (Suc 0)"
  have r: "DEACTIVATION_THRESHOLD cfg \<le> detectionRate ?h"
    using rate_push_one[OF Suc.prems(1,2,3)] Suc.prems(4) by simp
  then have hy: "hysteresis cfg (detectionRate ?h) True = True"
    by (simp add: hysteresis_def)
  have "keyTrace cfg (replicate m (Suc 0)) ?h True = replicate m True"
    using Suc.prems assms r
    by (intro Suc.IH binary_push length_push_le pushSample_nonempty) simp_all
  then show ?case by (simp add: hy)
qed

lemma stays_inactive:
  assumes "1 \<le> SMOOTHING_FRAMES cfg"
  shows "h \<noteq> [] \<Longrightarrow> length h \<le> SMOOTHING_FRAMES cfg \<Longrightarrow>
         detectionRate h < ACTIVATION_THRESHOLD cfg \<Longrightarrow>
         keyTrace cfg (replicate m 0) h False = replicate m False"
proof (induction m arbitrary: h)
  case 0
  then show ?case by simp
next
  case (Suc m)
  let ?h = "pushSample (SMOOTHING_FRAMES cfg) h 0"
  have r: "detectionRate ?h < ACTIVATION_THRESHOLD cfg"
    using rate_push_zero[OF Suc.prems(1,2)] Suc.prems(3) by simp
  then have hy: "hysteresis cfg (detectionRate ?h) False = False"
    by (simp add: hysteresis_def)
  have "keyTrace cfg (replicate m 0) ?h False = replicate m False"
    using Suc.prems assms r
    by (intro Suc.IH length_push_le pushSample_nonempty) simp_all
  then show ?case by (simp add: hy)
qed

lemma activates_once_shape:
  assumes "1 \<le> SMOOTHING_FRAMES cfg"
    and "DEACTIVATION_THRESHOLD cfg \<le> ACTIVATION_THRESHOLD cfg"
  shows "binary h \<Longrightarrow> length h \<le> SMOOTHING_FRAMES cfg \<Longrightarrow>
         \<exists>a\<le>m. keyTrace cfg (replicate m (Suc 0)) h False = replicate a False @ replicate (m - a) True"
proof (induction m arbitrary: h)
  case 0
  then show ?case by simp
next
  case (Suc m)
  let ?h = "pushSample (SMOOTHING_FRAMES cfg) h (Suc 0)"
  have b: "binary ?h" and l: "length ?h \<le> SMOOTHING_FRAMES cfg" and ne: "?h \<noteq> []"
    using Suc.prems assms(1) by (simp_all add: binary_push length_push_le pushSample_nonempty)
  show ?case
  proof (cases "ACTIVATION_THRESHOLD cfg \<le> detectionRate ?h")
    case True
    then have hy: "hysteresis cfg (detectionRate ?h) False = True" by (simp add: hysteresis_def)
    have "keyTrace cfg (replicate m (Suc 0)) ?h True = replicate m True"
      using stays_active[OF assms(1) b ne l] True assms(2) by simp
    then have "keyTrace cfg (replicate (Suc m) (Suc 0)) h False = replicate 0 False @ replicate (Suc m - 0) True"
      by (simp add: hy)
    then show ?thesis by blast
  next
    case False
    then have hy: "hysteresis cfg (detectionRate ?h) False = False" by (simp add: hysteresis_def)
    from Suc.IH[OF b l] obtain a where a: "a \<le> m"
      "keyTrace cfg (replicate m (Suc 0)) ?h False = replicate a False @ replicate (m - a) True"
      by blast
    then have "keyTrace cfg (replicate (Suc m) (Suc 0)) h False
        = replicate (Suc a) False @ replicate (Suc m - Suc a) True"
      by (simp add: hy)
    with a(1) show ?thesis by (metis Suc_le_mono)
  qed
qed

lemma deactivates_once_shape:
  assumes "1 \<le> SMOOTHING_FRAMES cfg"
    and "DEACTIVATION_THRESHOLD cfg \<le> ACTIVATION_THRESHOLD cfg"
  shows "length h \<le> SMOOTHING_FRAMES cfg \<Longrightarrow>
         \<exists>a\<le>m. keyTrace cfg (replicate m 0) h True = replicate a True @ replicate (m - a) False"
proof (induction m arbitrary: h)
  case 0
  then show ?case by simp
next
  case (Suc m)
  let ?h = "pushSample (SMOOTHING_FRAMES cfg) h 0"
  have l: "length ?h \<le> SMOOTHING_FRAMES cfg" and ne: "?h \<noteq> []"
    using Suc.prems assms(1) by (simp_all add: length_push_le pushSample_nonempty)
  show ?case
  proof (cases "detectionRate ?h < DEACTIVATION_THRESHOLD cfg")
    case True
    then have hy: "hysteresis cfg (detectionRate ?h) True = False" by (simp add: hysteresis_def)
    have "keyTrace cfg (replicate m 0) ?h False = replicate m False"
      using stays_inactive[OF assms(1) ne l] True assms(2) by simp
    then have "keyTrace cfg (replicate (Suc m) 0) h True = replicate 0 True @ replicate (Suc m - 0) False"
      by (simp add: hy)
    then show ?thesis by blast
  next
    case False
    then have hy: "hysteresis cfg (detectionRate ?h) True = True" by (simp add: hysteresis_def)
    from Suc.IH[OF l] obtain a where a: "a \<le> m"
      "keyTrace cfg (replicate m 0) ?h True = replicate a True @ replicate (m - a) False"
      by blast
    then have "keyTrace cfg (replicate (Suc m) 0) h True
        = replicate (Suc a) True @ replicate (Suc m - Suc a) False"
      by (simp add: hy)
    with a(1) show ?thesis by (metis Suc_le_mono)
  qed
qed

lemma feed_replicate:
  "length h \<le> n \<Longrightarrow> 1 \<le> n \<Longrightarrow> feed n (replicate m s) h = drop (length h + m - n) (h @ replicate m s)"
proof (induction m arbitrary: h)
  case 0
  then show ?case by (simp add: feed_def)
next
  case (Suc m)
  let ?h = "pushSample n h s"
  have l: "length ?h \<le> n" using Suc.prems by (simp add: pushSample_length)
  have "feed n (replicate (Suc m) s) h = feed n (replicate m s) ?h"
    by (simp add: feed_def)
  also have "\<dots> = drop (length ?h + m - n) (?h @ replicate m s)"
    using Suc.IH[OF l Suc.prems(2)] .
  also have "\<dots> = drop (length h + Suc m - n) (h @ replicate (Suc m) s)"
  proof (cases "length h < n")
    case True
    then show ?thesis by (simp add: pushSample_def replicate_append_same)
  next
    case False
    with Suc.prems have len: "length h = n" by simp
    then obtain x xs where h: "h = x # xs" using Suc.prems(2) by (cases h) auto
    have p: "?h = xs @ [s]" using len h by (auto simp: pushSample_def)
    have "drop (length ?h + m - n) (?h @ replicate m s) = drop m (xs @ replicate (Suc m) s)"
      unfolding p using len h by (simp add: replicate_append_same del: drop_append)
    also have "\<dots> = drop (Suc m) (h @ replicate (Suc m) s)"
      by (simp add: h del: drop_append)
    also have "\<dots> = drop (length h + Suc m - n) (h @ replicate (Suc m) s)"
      using len by simp
    finally show ?thesis .
  qed
  finally show ?case .
qed

lemma feed_saturated:
  assumes "length h \<le> n" "1 \<le> n" "n \<le> m"
  shows "feed n (replicate m s) h = replicate n s"
proof -
  have "feed n (replicate m s) h = drop (length h + m - n) (h @ replicate m s)"
    using assms by (simp add: feed_replicate)
  also have "\<dots> = drop (m - n) (replicate m s)" using assms by simp
  also have "\<dots> = replicate n s" using assms by simp
  finally show ?thesis .
qed

lemma keyTrace_append:
  "keyTrace cfg (xs @ ys) h a =
     keyTrace cfg xs h a @
     keyTrace cfg ys (feed (SMOOTHING_FRAMES cfg) xs h) (last (a # keyTrace cfg xs h a))"
proof (induction xs arbitrary: h a)
  case Nil
  then show ?case by (simp add: feed_def)
next
  case (Cons x xs)
  show ?case
    using Cons.IH[of "pushSample (SMOOTHING_FRAMES cfg) h x"
        "hysteresis cfg (detectionRate (pushSample (SMOOTHING_FRAMES cfg) h x)) a"]
    by (simp add: feed_def)
qed

lemma keyTrace_last:
  "last (keyTrace cfg (replicate (Suc m) s) h a) =
     hysteresis cfg (detectionRate (feed (SMOOTHING_FRAMES cfg) (replicate (Suc m) s) h))
       (last (a # keyTrace cfg (replicate m s) h a))"
proof -
  have r: "replicate (Suc m) s = replicate m s @ [s]"
    by (simp add: replicate_append_same)
  have f: "feed (SMOOTHING_FRAMES cfg) (replicate m s @ [s]) h =
       pushSample (SMOOTHING_FRAMES cfg) (feed (SMOOTHING_FRAMES cfg) (replicate m s) h) s"
    by (simp add: feed_def)
  show ?thesis
    unfolding r keyTrace_append f by simp
qed

lemma rate_all_ones: "1 \<le> n \<Longrightarrow> detectionRate (replicate n (Suc 0)) = 1"
  by (simp add: detectionRate_def sum_list_replicate)

lemma rate_all_zeros: "detectionRate (replicate n 0) = 0"
  by (simp add: detectionRate_def sum_list_replicate)

lemma shape_last_True:
  assumes "xs = replicate a False @ replicate (m - a) True" "a \<le> m" "0 < m" "last xs"
  shows "a < m"
proof (rule ccontr)
  assume "\<not> a < m"
  with assms(2) have "a = m" by simp
  with assms(1,3) have "xs = replicate m False" "xs \<noteq> []" by auto
  then have "\<not> last xs" by simp
  with assms(4) show False by simp
qed

lemma shape_last_False:
  assumes "xs = replicate a True @ replicate (m - a) False" "a \<le> m" "0 < m" "\<not> last xs"
  shows "a < m"
proof (rule ccontr)
  assume "\<not> a < m"
  with assms(2) have "a = m" by simp
  with assms(1,3) have "xs = replicate m True" "xs \<noteq> []" by auto
  then have "last xs" by simp
  with assms(4) show False by simp
qed

lemma activates_exactly_once:
  assumes "1 \<le> SMOOTHING_FRAMES cfg"
    and "DEACTIVATION_THRESHOLD cfg \<le> ACTIVATION_THRESHOLD cfg"
    and "ACTIVATION_THRESHOLD cfg \<le> 1"
    and "binary h" and "length h \<le> SMOOTHING_FRAMES cfg"
    and "SMOOTHING_FRAMES cfg \<le> m"
  shows "\<exists>a<m. keyTrace cfg (replicate m (Suc 0)) h False =
                 replicate a False @ replicate (m - a) True"
proof -
  from assms(1,6) obtain k where m: "m = Suc k" by (cases m) auto
  from activates_once_shape[OF assms(1,2,4,5), of m] obtain a where a: "a \<le> m"
    "keyTrace cfg (replicate m (Suc 0)) h False = replicate a False @ replicate (m - a) True"
    by blast
  have "feed (SMOOTHING_FRAMES cfg) (replicate m (Suc 0)) h = replicate (SMOOTHING_FRAMES cfg) (Suc 0)"
    using assms by (simp add: feed_saturated)
  then have "detectionRate (feed (SMOOTHING_FRAMES cfg) (replicate m (Suc 0)) h) = 1"
    using assms(1) by (simp add: rate_all_ones)
  then have "last (keyTrace cfg (replicate m (Suc 0)) h False)"
    using assms(2,3) unfolding m keyTrace_last by (simp add: hysteresis_def)
  with a m have "a < m" by (intro shape_last_True[OF a(2) a(1)]) simp_all
  with a(2) show ?thesis by blast
qed

lemma deactivates_exactly_once:
  assumes "1 \<le> SMOOTHING_FRAMES cfg"
    and "DEACTIVATION_THRESHOLD cfg \<le> ACTIVATION_THRESHOLD cfg"
    and "0 < DEACTIVATION_THRESHOLD cfg"
    and "length h \<le> SMOOTHING_FRAMES cfg"
    and "SMOOTHING_FRAMES cfg \<le> m"
  shows "\<exists>a<m. keyTrace cfg (replicate m 0) h True =
                 replicate a True @ replicate (m - a) False"
proof -
  from assms(1,5) obtain k where m: "m = Suc k" by (cases m) auto
  from deactivates_once_shape[OF assms(1,2,4), of m] obtain a where a: "a \<le> m"
    "keyTrace cfg (replicate m 0) h True = replicate a True @ replicate (m - a) False"
    by blast
  have "feed (SMOOTHING_FRAMES cfg) (replicate m 0) h = replicate (SMOOTHING_FRAMES cfg) 0"
    using assms by (simp add: feed_saturated)
  then have "detectionRate (feed (SMOOTHING_FRAMES cfg) (replicate m 0) h) = 0"
    by (simp add: rate_all_zeros)
  then have "\<not> last (keyTrace cfg (replicate m 0) h True)"
    using assms(2,3) unfolding m keyTrace_last by (simp add: hysteresis_def)
  with a m have "a < m" by (intro shape_last_False[OF a(2) a(1)]) simp_all
  with a(2) show ?thesis by blast
qed

lemma samples_all_ones:
  "\<forall>r\<in>set raws. i \<in> set r \<Longrightarrow>
   map (\<lambda>r. if i \<in> set r then 1 else 0) raws = replicate (length raws) (Suc 0)"
  by (induction raws) auto

lemma samples_all_zeros:
  "\<forall>r\<in>set raws. i \<notin> set r \<Longrightarrow>
   map (\<lambda>r. if i \<in> set r then 1 else 0) raws = replicate (length raws) (0::nat)"
  by (induction raws) auto

text \<open>
  C2. For a key with a non-empty history and \<open>detectionRate\<close> the mean of its window:
  an inactive key becomes active exactly when the rate is at least
  ACTIVATION\_THRESHOLD, an active key becomes inactive exactly when the rate is below
  DEACTIVATION\_THRESHOLD, and a rate strictly between the two thresholds leaves the
  state as it is. Over a run of frames (window of at least one frame, deactivation
  threshold not above the activation threshold): from an inactive key, frames that all
  assert the key, at least as many as the window is long, give a run of inactive
  states followed by a non-empty run of active ones, one activation and no
  deactivation (activation threshold at most 1); from an active key, frames that never
  assert it give active states followed by a non-empty run of inactive ones
  (deactivation threshold above 0).
\<close>

theorem hysteresis_transitions:
  "(historyOf st i \<noteq> [] \<longrightarrow>
      (\<not> isActive i st \<longrightarrow>
         (isActive i (smoothKey cfg raw i st) \<longleftrightarrow>
            detectionRate (historyOf st i) \<ge> ACTIVATION_THRESHOLD cfg)) \<and>
      (isActive i st \<longrightarrow>
         (\<not> isActive i (smoothKey cfg raw i st) \<longleftrightarrow>
            detectionRate (historyOf st i) < DEACTIVATION_THRESHOLD cfg)) \<and>
      (DEACTIVATION_THRESHOLD cfg < detectionRate (historyOf st i) \<and>
       detectionRate (historyOf st i) < ACTIVATION_THRESHOLD cfg \<longrightarrow>
         isActive i (smoothKey cfg raw i st) = isActive i st)) \<and>
   (1 \<le> SMOOTHING_FRAMES cfg \<and> i < length keys \<and>
    DEACTIVATION_THRESHOLD cfg \<le> ACTIVATION_THRESHOLD cfg \<and> ACTIVATION_THRESHOLD cfg \<le> 1 \<and>
    \<not> isActive i st \<and> length (historyOf st i) \<le> SMOOTHING_FRAMES cfg \<and>
    binary (historyOf st i) \<and> (\<forall>r\<in>set raws. i \<in> set r) \<and>
    SMOOTHING_FRAMES cfg \<le> length raws \<longrightarrow>
      (\<exists>a<length raws. map (isActive i) (runFrames cfg keys raws st) =
          replicate a False @ replicate (length raws - a) True)) \<and>
   (1 \<le> SMOOTHING_FRAMES cfg \<and> i < length keys \<and>
    0 < DEACTIVATION_THRESHOLD cfg \<and>
    DEACTIVATION_THRESHOLD cfg \<le> ACTIVATION_THRESHOLD cfg \<and>
    isActive i st \<and> length (historyOf st i) \<le> SMOOTHING_FRAMES cfg \<and>
    (\<forall>r\<in>set raws. i \<notin> set r) \<and>
    SMOOTHING_FRAMES cfg \<le> length raws \<longrightarrow>
      (\<exists>a<length raws. map (isActive i) (runFrames cfg keys raws st) =
          replicate a True @ replicate (length raws - a) False))"
proof (intro conjI impI)
  assume "historyOf st i \<noteq> []"
  note s = smoothKey_active[OF this, of i cfg raw]
  show "\<not> isActive i st \<Longrightarrow> isActive i (smoothKey cfg raw i st) \<longleftrightarrow>
      detectionRate (historyOf st i) \<ge> ACTIVATION_THRESHOLD cfg"
    using s by (simp add: hysteresis_def)
  show "isActive i st \<Longrightarrow> \<not> isActive i (smoothKey cfg raw i st) \<longleftrightarrow>
      detectionRate (historyOf st i) < DEACTIVATION_THRESHOLD cfg"
    using s by (simp add: hysteresis_def)
  show "DEACTIVATION_THRESHOLD cfg < detectionRate (historyOf st i) \<and>
       detectionRate (historyOf st i) < ACTIVATION_THRESHOLD cfg \<Longrightarrow>
         isActive i (smoothKey cfg raw i st) = isActive i st"
    using s by (simp add: hysteresis_def)
next
  assume a: "1 \<le> SMOOTHING_FRAMES cfg \<and> i < length keys \<and>
    DEACTIVATION_THRESHOLD cfg \<le> ACTIVATION_THRESHOLD cfg \<and> ACTIVATION_THRESHOLD cfg \<le> 1 \<and>
    \<not> isActive i st \<and> length (historyOf st i) \<le> SMOOTHING_FRAMES cfg \<and>
    binary (historyOf st i) \<and> (\<forall>r\<in>set raws. i \<in> set r) \<and>
    SMOOTHING_FRAMES cfg \<le> length raws"
  then have tr: "map (isActive i) (runFrames cfg keys raws st) =
      keyTrace cfg (replicate (length raws) (Suc 0)) (historyOf st i) False"
    using runFrames_trace[of cfg i keys raws st] samples_all_ones[of raws i] by simp
  show "\<exists>a<length raws. map (isActive i) (runFrames cfg keys raws st) =
          replicate a False @ replicate (length raws - a) True"
    unfolding tr using a by (intro activates_exactly_once) simp_all
next
  assume a: "1 \<le> SMOOTHING_FRAMES cfg \<and> i < length keys \<and>
    0 < DEACTIVATION_THRESHOLD cfg \<and>
    DEACTIVATION_THRESHOLD cfg \<le> ACTIVATION_THRESHOLD cfg \<and>
    isActive i st \<and> length (historyOf st i) \<le> SMOOTHING_FRAMES cfg \<and>
    (\<forall>r\<in>set raws. i \<notin> set r) \<and>
    SMOOTHING_FRAMES cfg \<le> length raws"
  then have tr: "map (isActive i) (runFrames cfg keys raws st) =
      keyTrace cfg (replicate (length raws) 0) (historyOf st i) True"
    using runFrames_trace[of cfg i keys raws st] samples_all_zeros[of raws i] by simp
  show "\<exists>a<length raws. map (isActive i) (runFrames cfg keys raws st) =
          replicate a True @ replicate (length raws - a) False"
    unfolding tr using a by (intro deactivates_exactly_once) simp_all
qed

lemma demo_traces:
  "map (isActive 2) (runFrames defaultConfig demoKeys [[2], [2], [2]] idleEngine) = [False, True, True]"
  "map (isActive 2) (runFrames defaultConfig demoKeys [[], [], []] heldEngine) = [True, True, False]"
proof -
  have k: "1 \<le> SMOOTHING_FRAMES defaultConfig" "2 < length demoKeys"
    by (simp_all add: defaultConfig_def demoKeys_def)
  show "map (isActive 2) (runFrames defaultConfig demoKeys [[2], [2], [2]] idleEngine) = [False, True, True]"
    unfolding runFrames_trace[OF k]
    by (simp add: idleEngine_def demoEngine_def historyOf_def isActive_def pushSample_def
        detectionRate_def hysteresis_def defaultConfig_def)
  show "map (isActive 2) (runFrames defaultConfig demoKeys [[], [], []] heldEngine) = [True, True, False]"
    unfolding runFrames_trace[OF k]
    by (simp add: heldEngine_def demoEngine_def historyOf_def isActive_def pushSample_def
        detectionRate_def hysteresis_def defaultConfig_def)
qed

theorem hysteresis_transitions_witness:
  "historyOf risingEngine 2 \<noteq> [] \<and> \<not> isActive 2 risingEngine \<and>
   detectionRate (historyOf risingEngine 2) \<ge> ACTIVATION_THRESHOLD defaultConfig \<and>
   isActive 2 (smoothKey defaultConfig [2] 2 risingEngine) \<and>
   historyOf heldEngine 2 \<noteq> [] \<and> isActive 2 heldEngine \<and>
   \<not> detectionRate (historyOf heldEngine 2) < DEACTIVATION_THRESHOLD defaultConfig \<and>
   isActive 2 (smoothKey defaultConfig [] 2 heldEngine) \<and>
   1 \<le> SMOOTHING_FRAMES defaultConfig \<and> 2 < length demoKeys \<and>
   0 < DEACTIVATION_THRESHOLD defaultConfig \<and>
   DEACTIVATION_THRESHOLD defaultConfig \<le> ACTIVATION_THRESHOLD defaultConfig \<and>
   ACTIVATION_THRESHOLD defaultConfig \<le> 1 \<and>
   \<not> isActive 2 idleEngine \<and> length (historyOf idleEngine 2) \<le> SMOOTHING_FRAMES defaultConfig \<and>
   binary (historyOf idleEngine 2) \<and> list_all (\<lambda>r. (2::nat) \<in> set r) [[2], [2], [2]] \<and>
   SMOOTHING_FRAMES defaultConfig \<le> length [[2::nat], [2], [2]] \<and>
   (\<exists>a<3. map (isActive 2) (runFrames defaultConfig demoKeys [[2], [2], [2]] idleEngine) =
       replicate a False @ replicate (3 - a) True) \<and>
   map (isActive 2) (runFrames defaultConfig demoKeys [[2], [2], [2]] idleEngine) = [False, True, True] \<and>
   length (historyOf heldEngine 2) \<le> SMOOTHING_FRAMES defaultConfig \<and>
   list_all (\<lambda>r. (2::nat) \<notin> set r) [[], [], []] \<and>
   (\<exists>a<3. map (isActive 2) (runFrames defaultConfig demoKeys [[], [], []] heldEngine) =
       replicate a True @ replicate (3 - a) False) \<and>
   map (isActive 2) (runFrames defaultConfig demoKeys [[], [], []] heldEngine) = [True, True, False]"
proof -
  have cfg: "1 \<le> SMOOTHING_FRAMES defaultConfig" "2 < length demoKeys"
    "0 < DEACTIVATION_THRESHOLD defaultConfig"
    "DEACTIVATION_THRESHOLD defaultConfig \<le> ACTIVATION_THRESHOLD defaultConfig"
    "ACTIVATION_THRESHOLD defaultConfig \<le> 1"
    by (simp_all add: defaultConfig_def demoKeys_def)
  have rising: "historyOf risingEngine 2 \<noteq> []" "\<not> isActive 2 risingEngine"
    "detectionRate (historyOf risingEngine 2) \<ge> ACTIVATION_THRESHOLD defaultConfig"
    by (simp_all add: risingEngine_def demoEngine_def historyOf_def isActive_def detectionRate_def
        defaultConfig_def)
  have held: "historyOf heldEngine 2 \<noteq> []" "isActive 2 heldEngine"
    "\<not> detectionRate (historyOf heldEngine 2) < DEACTIVATION_THRESHOLD defaultConfig"
    "length (historyOf heldEngine 2) \<le> SMOOTHING_FRAMES defaultConfig"
    by (simp_all add: heldEngine_def demoEngine_def historyOf_def isActive_def detectionRate_def
        defaultConfig_def)
  have idle: "\<not> isActive 2 idleEngine" "length (historyOf idleEngine 2) \<le> SMOOTHING_FRAMES defaultConfig"
    "binary (historyOf idleEngine 2)"
    by (simp_all add: idleEngine_def demoEngine_def historyOf_def isActive_def binary_def
        defaultConfig_def)
  have raws: "\<forall>r\<in>set [[2], [2], [2]]. (2::nat) \<in> set r"
    "SMOOTHING_FRAMES defaultConfig \<le> length [[2::nat], [2], [2]]"
    "\<forall>r\<in>set [[], [], []]. (2::nat) \<notin> set r"
    "SMOOTHING_FRAMES defaultConfig \<le> length [[]::nat list, [], []]"
    by (simp_all add: defaultConfig_def)
  note t1 = hysteresis_transitions[where st = risingEngine and i = 2 and cfg = defaultConfig
      and raw = "[2]"]
  note t2 = hysteresis_transitions[where st = heldEngine and i = 2 and cfg = defaultConfig
      and raw = "[]" and keys = demoKeys and raws = "[[], [], []]"]
  note t3 = hysteresis_transitions[where st = idleEngine and i = 2 and cfg = defaultConfig
      and keys = demoKeys and raws = "[[2], [2], [2]]"]
  have c1: "isActive 2 (smoothKey defaultConfig [2] 2 risingEngine)"
    using t1 rising by blast
  have c2: "isActive 2 (smoothKey defaultConfig [] 2 heldEngine)"
    using t2 held by blast
  have "\<exists>a<length [[2::nat], [2], [2]].
      map (isActive 2) (runFrames defaultConfig demoKeys [[2], [2], [2]] idleEngine) =
       replicate a False @ replicate (length [[2::nat], [2], [2]] - a) True"
    using t3 cfg idle raws by blast
  then have c3: "\<exists>a<3. map (isActive 2) (runFrames defaultConfig demoKeys [[2], [2], [2]] idleEngine) =
       replicate a False @ replicate (3 - a) True"
    by (simp add: numeral_3_eq_3)
  have "\<exists>a<length [[]::nat list, [], []].
      map (isActive 2) (runFrames defaultConfig demoKeys [[], [], []] heldEngine) =
       replicate a True @ replicate (length [[]::nat list, [], []] - a) False"
    using t2 cfg held raws by blast
  then have c4: "\<exists>a<3. map (isActive 2) (runFrames defaultConfig demoKeys [[], [], []] heldEngine) =
       replicate a True @ replicate (3 - a) False"
    by (simp add: numeral_3_eq_3)
  show ?thesis
    using cfg rising held idle raws c1 c2 c3 c4 demo_traces by simp
qed

section \<open>Event emission\<close>

lemma fold_keeps:
  assumes "\<And>x s. proj (f x s) = proj s"
  shows "proj (fold f xs s) = proj s"
  using assms by (induction xs arbitrary: s) simp_all

lemma set_of_list_set [simp]: "set (set_of_list xs) = set xs"
proof -
  have "set (fold (\<lambda>x s. set_add s x) xs acc) = set xs \<union> set acc" for acc
    by (induction xs arbitrary: acc) auto
  then show ?thesis by (simp add: set_of_list_def)
qed







lemma cleanupFingers_fields [simp]:
  "hoveredKeyIndices (cleanupFingers st) = hoveredKeyIndices st"
  "currentlyHoveredNotes (cleanupFingers st) = currentlyHoveredNotes st"
  by (simp_all add: cleanupFingers_def Let_def)



lemma fold_view:
  assumes step: "\<And>x a b. view a = view b \<Longrightarrow> view (f x a) = view (f x b)"
  shows "view a = view b \<Longrightarrow> view (fold f xs a) = view (fold f xs b)"
proof (induction xs arbitrary: a b)
  case Nil
  then show ?case by simp
next
  case (Cons x xs)
  have "view (f x a) = view (f x b)" using Cons.prems by (rule step)
  then have "view (fold f xs (f x a)) = view (fold f xs (f x b))" by (rule Cons.IH)
  then show ?case by simp
qed

lemma view_fields:
  assumes "smootherView a = smootherView b"
  shows "keyDetectionHistory a = keyDetectionHistory b"
    and "smoothedActiveKeys a = smoothedActiveKeys b"
    and "hoveredKeyIndices a = hoveredKeyIndices b"
    and "currentlyHoveredNotes a = currentlyHoveredNotes b"
  using assms by (simp_all add: smootherView_def)

lemma view_updateKeyHistory:
  assumes "smootherView a = smootherView b"
  shows "smootherView (updateKeyHistory cfg raw i a) = smootherView (updateKeyHistory cfg raw i b)"
  by (simp add: smootherView_def updateKeyHistory_def historyOf_def view_fields[OF assms])

lemma view_smoothKey:
  assumes "smootherView a = smootherView b"
  shows "smootherView (smoothKey cfg raw i a) = smootherView (smoothKey cfg raw i b)"
  by (simp add: smootherView_def smoothKey_def historyOf_def Let_def view_fields[OF assms])

lemma view_updateHistory:
  "smootherView a = smootherView b \<Longrightarrow>
   smootherView (updateHistory cfg keys raw a) = smootherView (updateHistory cfg keys raw b)"
  unfolding updateHistory_def
  by (rule fold_view) (rule view_updateKeyHistory)

lemma view_applySmoothing:
  "smootherView a = smootherView b \<Longrightarrow>
   smootherView (applySmoothing cfg keys raw a) = smootherView (applySmoothing cfg keys raw b)"
  unfolding applySmoothing_def
  by (rule fold_view) (rule view_smoothKey)

lemma view_updateHovered:
  "smootherView a = smootherView b \<Longrightarrow> smootherView (updateHovered a) = smootherView (updateHovered b)"
  by (simp add: smootherView_def updateHovered_def)

lemma view_triggerDecision:
  "smootherView (fst (triggerDecision cfg f k m d r acc)) = smootherView (fst acc)"
  by (simp add: triggerDecision_def smootherView_def Let_def)

lemma view_processFinger:
  "smootherView (fst (processFinger cfg cv tr keys f thumb xy acc)) = smootherView (fst acc)"
  by (simp add: processFinger_def Let_def view_triggerDecision split: option.splits)
     (simp add: smootherView_def trackMotion_def)

lemma view_processHand:
  "smootherView (fst (processHand cfg cv tr keys h lms acc)) = smootherView (fst acc)"
  unfolding processHand_def
  by (rule fold_keeps[where proj = "\<lambda>a. smootherView (fst a)"])
     (simp add: view_processFinger split: prod.splits)

lemma view_detectKeys:
  "smootherView (fst (detectKeys cfg cv tr keys hands st)) = smootherView st"
proof -
  have "smootherView (fst (fold (\<lambda>(handIndex, landmarks). processHand cfg cv tr keys handIndex landmarks)
       (enumerate 0 hands) (st, []))) = smootherView (fst (st, []::nat list))"
    by (rule fold_keeps[where proj = "\<lambda>a. smootherView (fst a)"])
       (simp add: view_processHand split: prod.splits)
  then show ?thesis by (simp add: detectKeys_def)
qed


lemma processFinger_resting:
  assumes "isAtRest cfg (fst acc) f (transformPointForDetection cv tr keys xy)"
    and "\<not> hasDownwardMovement cfg (fst acc) f (transformPointForDetection cv tr keys xy)"
    and "\<not> hasMovement cfg (fst acc) f (transformPointForDetection cv tr keys xy)"
  shows "snd (processFinger cfg cv tr keys f thumb xy acc) = snd acc"
  using assms by (simp add: processFinger_def Let_def)


lemma keyOf_Key [simp]: "map keyOf (map Key ks) = ks"
  by (induction ks) simp_all

lemma hasPolygon_Key [simp]: "list_all hasPolygon (map Key ks)"
  by (induction ks) simp_all

lemma nth_keyOf: "i < length exportKeys \<Longrightarrow> keyOf (exportKeys ! i) = map keyOf exportKeys ! i"
  by simp

lemma fold_scan_None:
  assumes "\<And>x. g x None = None"
  shows "fold g xs None = None"
  using assms by (induction xs) simp_all

lemma fold_scan_Some:
  assumes n: "\<And>x. g x None = None"
    and s: "\<And>x a b. g x (Some a) = Some b \<Longrightarrow> b = f x a"
  shows "fold g xs (Some a) = Some b \<Longrightarrow> b = fold f xs a"
proof (induction xs arbitrary: a)
  case Nil
  then show ?case by simp
next
  case (Cons x xs)
  show ?case
  proof (cases "g x (Some a)")
    case None
    then show ?thesis using Cons.prems fold_scan_None[of g xs, OF n] by simp
  next
    case (Some c)
    then have "c = f x a" by (rule s)
    moreover have "b = fold f xs c" using Cons.prems Some by (intro Cons.IH) simp
    ultimately show ?thesis by simp
  qed
qed

lemma fold_scan_total:
  assumes "\<And>x a. g x (Some a) = Some (f x a)"
  shows "fold g xs (Some a) = Some (fold f xs a)"
  using assms by (induction xs arbitrary: a) simp_all

lemma scanFinger_None [simp]: "scanFinger cfg cv tr exportKeys f thumb xy None = None"
  by (simp add: scanFinger_def)

lemma scanFinger_Some:
  "scanFinger cfg cv tr exportKeys f thumb xy (Some a) = Some b \<Longrightarrow>
   b = processFinger cfg cv tr (map keyOf exportKeys) f thumb xy a"
  by (simp add: scanFinger_def split: if_splits)

lemma scanHand_None [simp]: "scanHand cfg cv tr exportKeys h lms None = None"
  unfolding scanHand_def by (rule fold_scan_None) (simp split: prod.splits)

lemma scanHand_Some:
  assumes "scanHand cfg cv tr exportKeys h lms (Some a) = Some b"
  shows "b = processHand cfg cv tr (map keyOf exportKeys) h lms a"
  unfolding processHand_def
  by (rule fold_scan_Some[OF _ _ assms[unfolded scanHand_def]])
     (auto split: prod.splits dest: scanFinger_Some)

lemma scanHands_Some:
  assumes "scanHands cfg cv tr exportKeys hands st = Some d"
  shows "d = detectKeys cfg cv tr (map keyOf exportKeys) hands st"
  unfolding detectKeys_def
  by (rule fold_scan_Some[OF _ _ assms[unfolded scanHands_def]])
     (auto split: prod.splits dest: scanHand_Some)

lemma scanHand_total:
  assumes "list_all hasPolygon exportKeys"
  shows "scanHand cfg cv tr exportKeys h lms (Some a) =
         Some (processHand cfg cv tr (map keyOf exportKeys) h lms a)"
  unfolding scanHand_def processHand_def
  by (rule fold_scan_total) (simp add: scanFinger_def hitTestRaises_def assms split: prod.splits)

lemma scanHands_total:
  assumes "list_all hasPolygon exportKeys"
  shows "scanHands cfg cv tr exportKeys hands st =
         Some (detectKeys cfg cv tr (map keyOf exportKeys) hands st)"
  unfolding scanHands_def detectKeys_def
  by (rule fold_scan_total) (simp add: scanHand_total[OF assms] split: prod.splits)






lemma view_handsBranch:
  assumes "smootherView a = smootherView b"
  shows "resultEvents (handsBranch exportKeys a) = resultEvents (handsBranch exportKeys b)"
    and "resultHovered (handsBranch exportKeys a) = resultHovered (handsBranch exportKeys b)"
    and "resultNotes (handsBranch exportKeys a) = resultNotes (handsBranch exportKeys b)"
    and "noteCalls (handsBranch exportKeys a) = noteCalls (handsBranch exportKeys b)"
    and "resultHistory (handsBranch exportKeys a) i = resultHistory (handsBranch exportKeys b) i"
  by (simp_all add: handsBranch_def emitEvents_def newHoveredNotes_def hoverLabelRaises_def Let_def
      historyOf_def view_fields[OF assms] split: option.splits)

lemma after_cleanup:
  "resultEvents (case r of TypeError events \<Rightarrow> TypeError events
                 | Returned st3 events \<Rightarrow> Returned (cleanupFingers st3) events) = resultEvents r"
  "resultHovered (case r of TypeError events \<Rightarrow> TypeError events
                 | Returned st3 events \<Rightarrow> Returned (cleanupFingers st3) events) = resultHovered r"
  "resultNotes (case r of TypeError events \<Rightarrow> TypeError events
                 | Returned st3 events \<Rightarrow> Returned (cleanupFingers st3) events) = resultNotes r"
  "noteCalls (case r of TypeError events \<Rightarrow> TypeError events
                 | Returned st3 events \<Rightarrow> Returned (cleanupFingers st3) events) = noteCalls r"
  "resultHistory (case r of TypeError events \<Rightarrow> TypeError events
                 | Returned st3 events \<Rightarrow> Returned (cleanupFingers st3) events) i = resultHistory r i"
  by (cases r; simp add: historyOf_def cleanupFingers_def Let_def)+

lemma hands_frame_raw:
  assumes "exportKeys \<noteq> []" and "hands \<noteq> []"
    and "list_all (\<lambda>landmarks. 20 < length landmarks) hands"
    and "scanHands cfg cv tr exportKeys hands st = Some d"
  shows "processLandmarkerResults cfg cv tr exportKeys hands st =
     (case handsBranch exportKeys (updateHovered (applySmoothing cfg (map keyOf exportKeys)
             (limitKeys cv tr (map keyOf exportKeys) hands (snd d))
             (updateHistory cfg (map keyOf exportKeys)
                (limitKeys cv tr (map keyOf exportKeys) hands (snd d)) (fst d)))) of
        TypeError events \<Rightarrow> TypeError events
      | Returned st3 events \<Rightarrow> Returned (cleanupFingers st3) events)"
  using assms by (simp add: processLandmarkerResults_def Let_def)


lemma hands_frame:
  assumes "exportKeys \<noteq> []" and "hands \<noteq> []"
    and "list_all (\<lambda>landmarks. 20 < length landmarks) hands"
    and "scanHands cfg cv tr exportKeys hands st = Some d"
    and "keys = map keyOf exportKeys"
    and "raw = limitKeys cv tr keys hands (snd (detectKeys cfg cv tr keys hands st))"
  shows "resultEvents (processLandmarkerResults cfg cv tr exportKeys hands st) =
           resultEvents (handsBranch exportKeys (updateHovered (applySmoothing cfg keys raw
              (updateHistory cfg keys raw st))))"
    and "resultHovered (processLandmarkerResults cfg cv tr exportKeys hands st) =
           resultHovered (handsBranch exportKeys (updateHovered (applySmoothing cfg keys raw
              (updateHistory cfg keys raw st))))"
    and "resultNotes (processLandmarkerResults cfg cv tr exportKeys hands st) =
           resultNotes (handsBranch exportKeys (updateHovered (applySmoothing cfg keys raw
              (updateHistory cfg keys raw st))))"
    and "noteCalls (processLandmarkerResults cfg cv tr exportKeys hands st) =
           noteCalls (handsBranch exportKeys (updateHovered (applySmoothing cfg keys raw
              (updateHistory cfg keys raw st))))"
    and "resultHistory (processLandmarkerResults cfg cv tr exportKeys hands st) i =
           resultHistory (handsBranch exportKeys (updateHovered (applySmoothing cfg keys raw
              (updateHistory cfg keys raw st)))) i"
proof -
  have d: "d = detectKeys cfg cv tr keys hands st"
    unfolding assms(5) using assms(4) by (rule scanHands_Some)
  have v: "smootherView (updateHovered (applySmoothing cfg keys raw (updateHistory cfg keys raw (fst d))))
         = smootherView (updateHovered (applySmoothing cfg keys raw (updateHistory cfg keys raw st)))"
    unfolding d
    by (intro view_updateHovered view_applySmoothing view_updateHistory view_detectKeys)
  have R: "processLandmarkerResults cfg cv tr exportKeys hands st =
     (case handsBranch exportKeys (updateHovered (applySmoothing cfg keys raw
             (updateHistory cfg keys raw (fst d)))) of
        TypeError events \<Rightarrow> TypeError events
      | Returned st3 events \<Rightarrow> Returned (cleanupFingers st3) events)"
    unfolding hands_frame_raw[OF assms(1-4)] assms(6) d assms(5) ..
  show "resultEvents (processLandmarkerResults cfg cv tr exportKeys hands st) =
           resultEvents (handsBranch exportKeys (updateHovered (applySmoothing cfg keys raw
              (updateHistory cfg keys raw st))))"
    unfolding R after_cleanup by (rule view_handsBranch(1)[OF v])
  show "resultHovered (processLandmarkerResults cfg cv tr exportKeys hands st) =
           resultHovered (handsBranch exportKeys (updateHovered (applySmoothing cfg keys raw
              (updateHistory cfg keys raw st))))"
    unfolding R after_cleanup by (rule view_handsBranch(2)[OF v])
  show "resultNotes (processLandmarkerResults cfg cv tr exportKeys hands st) =
           resultNotes (handsBranch exportKeys (updateHovered (applySmoothing cfg keys raw
              (updateHistory cfg keys raw st))))"
    unfolding R after_cleanup by (rule view_handsBranch(3)[OF v])
  show "noteCalls (processLandmarkerResults cfg cv tr exportKeys hands st) =
           noteCalls (handsBranch exportKeys (updateHovered (applySmoothing cfg keys raw
              (updateHistory cfg keys raw st))))"
    unfolding R after_cleanup by (rule view_handsBranch(4)[OF v])
  show "resultHistory (processLandmarkerResults cfg cv tr exportKeys hands st) i =
           resultHistory (handsBranch exportKeys (updateHovered (applySmoothing cfg keys raw
              (updateHistory cfg keys raw st)))) i"
    unfolding R after_cleanup by (rule view_handsBranch(5)[OF v])
qed












lemma demo_entries: "map Key demoKeys \<noteq> []" "demoKeys = map keyOf (map Key demoKeys)"
  by (simp_all add: demoKeys_def)














section \<open>Concurrency limiter\<close>

lemma entry_fields:
  assumes "fingerEntry f a = fingerEntry f b"
  shows "previousFingerPositions a f = previousFingerPositions b f"
    and "fingerRestFrames a f = fingerRestFrames b f"
    and "fingerKeyMapping a f = fingerKeyMapping b f"
    and "fingerPreviousKeys a f = fingerPreviousKeys b f"
    and "fingerTriggeredKeys a f = fingerTriggeredKeys b f"
    and "fingerTriggerFrames a f = fingerTriggerFrames b f"
    and "frameCount a = frameCount b"
  using assms by (simp_all add: fingerEntry_def)

lemma entry_trackMotion:
  "f \<noteq> g \<Longrightarrow> fingerEntry f (trackMotion cfg st g t) = fingerEntry f st"
  by (simp add: fingerEntry_def trackMotion_def)

lemma entry_triggerDecision:
  "f \<noteq> g \<Longrightarrow> fingerEntry f (fst (triggerDecision cfg g k m d r acc)) = fingerEntry f (fst acc)"
  by (simp add: fingerEntry_def triggerDecision_def Let_def)

lemma entry_processFinger:
  assumes "f \<noteq> g"
  shows "fingerEntry f (fst (processFinger cfg cv tr keys g thumb xy acc)) = fingerEntry f (fst acc)"
proof -
  let ?t = "transformPointForDetection cv tr keys xy"
  let ?s = "trackMotion cfg (fst acc) g ?t"
  have c: "fingerEntry f (?s \<lparr> fingerKeyMapping := (fingerKeyMapping ?s)(g := None),
                              fingerPreviousKeys := (fingerPreviousKeys ?s)(g := None) \<rparr>)
           = fingerEntry f (fst acc)"
    using assms by (simp add: fingerEntry_def trackMotion_def)
  have d: "fingerEntry f (fst (triggerDecision cfg g k m d r (?s, snd acc))) = fingerEntry f (fst acc)"
    for k m d r
    using entry_triggerDecision[OF assms, of cfg k m d r "(?s, snd acc)"] entry_trackMotion[OF assms]
    by simp
  show ?thesis
    unfolding processFinger_def Let_def
    using c d entry_trackMotion[OF assms, of cfg "fst acc" ?t]
    by (auto split: option.splits)
qed

lemma motion_cong:
  assumes "fingerEntry f a = fingerEntry f b"
  shows "hasMovement cfg a f t = hasMovement cfg b f t"
    and "hasDownwardMovement cfg a f t = hasDownwardMovement cfg b f t"
    and "isAtRest cfg a f t = isAtRest cfg b f t"
    and "isInCooldown cfg a f = isInCooldown cfg b f"
    and "keyChanged a f k = keyChanged b f k"
proof -
  note e = entry_fields[OF assms]
  show m: "hasMovement cfg a f t = hasMovement cfg b f t"
    unfolding hasMovement_def e(1) ..
  show d: "hasDownwardMovement cfg a f t = hasDownwardMovement cfg b f t"
    unfolding hasDownwardMovement_def e(1) ..
  have "restFrames cfg a f t = restFrames cfg b f t"
    unfolding restFrames_def e(1) e(2) m d ..
  then show "isAtRest cfg a f t = isAtRest cfg b f t"
    unfolding isAtRest_def by simp
  show "isInCooldown cfg a f = isInCooldown cfg b f"
    unfolding isInCooldown_def framesSinceTrigger_def e(5) e(6) e(7) ..
  show "keyChanged a f k = keyChanged b f k"
    unfolding keyChanged_def e(4) ..
qed

lemma selectedKey_cong:
  assumes "fingerEntry f a = fingerEntry f b"
  shows "selectedKey cfg cv tr keys a f thumb xy = selectedKey cfg cv tr keys b f thumb xy"
  by (simp add: selectedKey_def motion_cong[OF assms])

lemma processFinger_snd_cong:
  assumes "fingerEntry f (fst acc) = fingerEntry f b"
    and "selectedKey cfg cv tr keys b f thumb xy = Some k"
  shows "snd (processFinger cfg cv tr keys f thumb xy acc) =
         snd (processFinger cfg cv tr keys f thumb xy (b, snd acc))"
proof -
  have s: "selectedKey cfg cv tr keys (fst acc) f thumb xy = Some k"
    using selectedKey_cong[OF assms(1)] assms(2) by simp
  note m = motion_cong[OF assms(1)]
  note e = entry_fields[OF assms(1)]
  have "snd (processFinger cfg cv tr keys f thumb xy (fst acc, snd acc)) =
        snd (processFinger cfg cv tr keys f thumb xy (b, snd acc))"
    unfolding processFinger_raw[OF s] processFinger_raw[OF assms(2)] m e(3) ..
  then show ?thesis by simp
qed

lemma pressHand_points:
  "enumerate 0 (allFingerPoints demoCanvas pressHand) =
     [(0, (595, 312)), (1, (620, 381)), (2, (660, 381)), (3, (700, 381)), (4, (900, 600))]"
  by (simp add: allFingerPoints_def thumbTip_def otherFingers_def pressHand_def toCanvas_def
      zeroLandmark_def enumerate_eq_zip upt_rec demoCanvas_def)

lemma press_selected:
  "selectedKey defaultConfig demoCanvas demoTransform demoKeys pressEngine (0, 0) True (595, 312) = Some 1"
  "selectedKey defaultConfig demoCanvas demoTransform demoKeys pressEngine (0, 1) False (620, 381) = Some 2"
  "selectedKey defaultConfig demoCanvas demoTransform demoKeys pressEngine (0, 2) False (660, 381) = Some 3"
  "selectedKey defaultConfig demoCanvas demoTransform demoKeys pressEngine (0, 3) False (700, 381) = Some 4"
  by (simp add: selectedKey_def demo_transform demo_bounds motion_defs pressEngine_def sqrt144,
      simp add: hit_defs)+

lemma press_raw:
  "snd (processFinger defaultConfig demoCanvas demoTransform demoKeys (0, 0) True (595, 312) (pressEngine, raw)) = set_add raw 1"
  "snd (processFinger defaultConfig demoCanvas demoTransform demoKeys (0, 1) False (620, 381) (pressEngine, raw)) = set_add raw 2"
  "snd (processFinger defaultConfig demoCanvas demoTransform demoKeys (0, 2) False (660, 381) (pressEngine, raw)) = set_add raw 3"
  "snd (processFinger defaultConfig demoCanvas demoTransform demoKeys (0, 3) False (700, 381) (pressEngine, raw)) = set_add raw 4"
  unfolding processFinger_raw[OF press_selected(1)] processFinger_raw[OF press_selected(2)]
    processFinger_raw[OF press_selected(3)] processFinger_raw[OF press_selected(4)]
  by (simp_all add: demo_transform hasDownwardMovement_def isInCooldown_def pressEngine_def
      defaultConfig_def)

lemma press_detect:
  "snd (detectKeys defaultConfig demoCanvas demoTransform demoKeys [pressHand] pressEngine) = [1, 2, 3, 4]"
proof -
  let ?pf = "processFinger defaultConfig demoCanvas demoTransform demoKeys"
  define a1 where "a1 = ?pf (0, 0) True (595, 312) (pressEngine, [])"
  define a2 where "a2 = ?pf (0, 1) False (620, 381) a1"
  define a3 where "a3 = ?pf (0, 2) False (660, 381) a2"
  define a4 where "a4 = ?pf (0, 3) False (700, 381) a3"
  define a5 where "a5 = ?pf (0, 4) False (900, 600) a4"
  have t: "thumbTip pressHand \<noteq> None"
    by (simp add: thumbTip_def pressHand_def)
  have d: "detectKeys defaultConfig demoCanvas demoTransform demoKeys [pressHand] pressEngine = a5"
    by (simp add: detectKeys_def processHand_def pressHand_points t
        a1_def a2_def a3_def a4_def a5_def)
  have e1: "fingerEntry f (fst a1) = fingerEntry f pressEngine" if "f \<noteq> (0, 0)" for f
    unfolding a1_def using entry_processFinger[OF that] by simp
  have e2: "fingerEntry f (fst a2) = fingerEntry f pressEngine" if "f \<noteq> (0, 0)" "f \<noteq> (0, 1)" for f
    unfolding a2_def using entry_processFinger[OF that(2)] e1[OF that(1)] by simp
  have e3: "fingerEntry f (fst a3) = fingerEntry f pressEngine"
    if "f \<noteq> (0, 0)" "f \<noteq> (0, 1)" "f \<noteq> (0, 2)" for f
    unfolding a3_def using entry_processFinger[OF that(3)] e2[OF that(1,2)] by simp
  have e4: "fingerEntry f (fst a4) = fingerEntry f pressEngine"
    if "f \<noteq> (0, 0)" "f \<noteq> (0, 1)" "f \<noteq> (0, 2)" "f \<noteq> (0, 3)" for f
    unfolding a4_def using entry_processFinger[OF that(4)] e3[OF that(1,2,3)] by simp
  have "snd a1 = set_add [] 1"
    unfolding a1_def by (rule press_raw(1))
  then have s1: "snd a1 = [1]"
    by (simp add: set_add_def)
  have e1': "fingerEntry (0, 1) (fst a1) = fingerEntry (0, 1) pressEngine"
    by (rule e1) simp_all
  have "snd a2 = snd (?pf (0, 1) False (620, 381) (pressEngine, snd a1))"
    unfolding a2_def by (rule processFinger_snd_cong[OF e1' press_selected(2)])
  also have "\<dots> = set_add (snd a1) 2"
    by (rule press_raw(2))
  also have "\<dots> = [1, 2]"
    unfolding s1 by (simp add: set_add_def)
  finally have s2: "snd a2 = [1, 2]" .
  have e2': "fingerEntry (0, 2) (fst a2) = fingerEntry (0, 2) pressEngine"
    by (rule e2) simp_all
  have "snd a3 = snd (?pf (0, 2) False (660, 381) (pressEngine, snd a2))"
    unfolding a3_def by (rule processFinger_snd_cong[OF e2' press_selected(3)])
  also have "\<dots> = set_add (snd a2) 3"
    by (rule press_raw(3))
  also have "\<dots> = [1, 2, 3]"
    unfolding s2 by (simp add: set_add_def)
  finally have s3: "snd a3 = [1, 2, 3]" .
  have e3': "fingerEntry (0, 3) (fst a3) = fingerEntry (0, 3) pressEngine"
    by (rule e3) simp_all
  have "snd a4 = snd (?pf (0, 3) False (700, 381) (pressEngine, snd a3))"
    unfolding a4_def by (rule processFinger_snd_cong[OF e3' press_selected(4)])
  also have "\<dots> = set_add (snd a3) 4"
    by (rule press_raw(4))
  also have "\<dots> = [1, 2, 3, 4]"
    unfolding s3 by (simp add: set_add_def)
  finally have s4: "snd a4 = [1, 2, 3, 4]" .
  have e4': "fingerEntry (0, 4) (fst a4) = fingerEntry (0, 4) pressEngine"
    by (rule e4) simp_all
  note m = motion_cong(1-3)[OF e4', where cfg = defaultConfig
      and t = "transformPointForDetection demoCanvas demoTransform demoKeys (900, 600)"]
  have "snd a5 = snd a4"
    unfolding a5_def
    by (rule processFinger_resting; unfold m)
       (simp_all add: demo_transform motion_defs pressEngine_def defaultConfig_def)
  with d s4 show ?thesis by simp
qed

lemma press_thumbTip:
  "thumbTip pressHand = Some \<lparr> lm_x = 595 / 1280, lm_y = 312 / 720, lm_z = 0 \<rparr>"
  by (simp add: thumbTip_def pressHand_def)

lemma press_thumb_in_key0:
  "isPointInPolygon demoCanvas demoTransform demoKeys 595 312 (polygon (demoKeys ! 0))"
  by (simp add: isPointInPolygon_def demo_transform)
     (simp add: demoKeys_def crossing_loop_def intersect_helper_def lt_quotient_def prev_index_def
        EPS_def upt_rec nth_Cons' Let_def)

lemma press_thumbKeyIndex:
  "thumbKeyIndex demoCanvas demoTransform demoKeys [pressHand] = Some 0"
proof -
  have l: "[0..<length demoKeys] = [0, 1, 2, 3, 4]"
    by (simp add: demoKeys_def upt_rec)
  have "findThumbKey demoCanvas demoTransform demoKeys
          \<lparr> lm_x = 595 / 1280, lm_y = 312 / 720, lm_z = 0 \<rparr> = Some 0"
    using press_thumb_in_key0 by (simp add: findThumbKey_def l demoCanvas_def)
  then show ?thesis
    by (simp add: thumbKeyIndex_def press_thumbTip)
qed

lemma press_positions:
  "thumbPositions demoCanvas demoTransform demoKeys [pressHand] @
   otherFingerPositions demoCanvas demoTransform demoKeys [pressHand] =
     [(595, 312), (620, 381), (660, 381), (700, 381), (900, 600)]"
  by (simp add: thumbPositions_def otherFingerPositions_def press_thumbTip demo_transform)
     (simp add: toCanvas_def demoCanvas_def otherFingers_def pressHand_def zeroLandmark_def)

lemma sqrt_numeral_square: "sqrt ((numeral k)\<^sup>2) = (numeral k :: real)"
  by (simp only: real_sqrt_abs abs_numeral)

lemma sqrt_le_numeral: "sqrt x \<le> numeral k \<longleftrightarrow> x \<le> (numeral k)\<^sup>2"
proof -
  have "sqrt x \<le> sqrt ((numeral k)\<^sup>2) \<longleftrightarrow> x \<le> (numeral k)\<^sup>2"
    by (rule real_sqrt_le_iff)
  then show ?thesis unfolding sqrt_numeral_square .
qed

lemma numeral_le_sqrt: "numeral k \<le> sqrt x \<longleftrightarrow> (numeral k)\<^sup>2 \<le> x"
proof -
  have "sqrt ((numeral k)\<^sup>2) \<le> sqrt x \<longleftrightarrow> (numeral k)\<^sup>2 \<le> x"
    by (rule real_sqrt_le_iff)
  then show ?thesis unfolding sqrt_numeral_square .
qed

lemma press_distances:
  "keyDistance demoCanvas demoTransform demoKeys [pressHand] (Suc 0) = sqrt 809"
  "keyDistance demoCanvas demoTransform demoKeys [pressHand] 2 = sqrt 441"
  "keyDistance demoCanvas demoTransform demoKeys [pressHand] 3 = sqrt 441"
  "keyDistance demoCanvas demoTransform demoKeys [pressHand] 4 = sqrt 441"
  unfolding keyDistance_def press_positions
  by (simp_all add: minDistance_def centerDistance_def getPolygonCenter_def demoKeys_def
      sqrt_le_numeral numeral_le_sqrt)

lemma press_sorted:
  "sortedOtherKeys demoCanvas demoTransform demoKeys [pressHand] [Suc 0, 2, 3, 4] = [2, 3, 4, Suc 0]"
  by (simp add: sortedOtherKeys_def press_thumbKeyIndex press_distances sqrt_le_numeral
      numeral_le_sqrt)

lemma press_limit:
  "limitKeys demoCanvas demoTransform demoKeys [pressHand] [1, 2, 3, 4] = [2, 3]"
  by (simp add: limitKeys_def press_sorted thumbKey_def press_thumbKeyIndex set_of_list_def
      set_add_def)

text \<open>
  What the limiter does in general: its result never has more than two keys; when
  more than two keys are asserted and \<open>thumbKey\<close> is set, it is that key and the nearest
  other asserted key; when \<open>thumbKey\<close> is not set, it is the two nearest asserted keys.
\<close>

lemma set_add_length: "length (set_add xs x) \<le> Suc (length xs)"
  by (simp add: set_add_def)

lemma set_of_list_length: "length (fold (\<lambda>x s. set_add s x) xs acc) \<le> length acc + length xs"
proof (induction xs arbitrary: acc)
  case Nil
  then show ?case by simp
next
  case (Cons x xs)
  have "length (fold (\<lambda>x s. set_add s x) xs (set_add acc x)) \<le> length (set_add acc x) + length xs"
    by (rule Cons.IH)
  also have "\<dots> \<le> Suc (length acc) + length xs"
    using set_add_length[of acc x] by simp
  finally show ?case by simp
qed

lemma limitKeys_cap: "length (limitKeys cv tr keys hands rawDetectedKeys) \<le> 2"
proof (cases "length rawDetectedKeys > 2")
  case False
  then show ?thesis by (simp add: limitKeys_def)
next
  case True
  show ?thesis
  proof (cases "thumbKey cv tr keys hands rawDetectedKeys")
    case None
    have "length (set_of_list (take 2 (sortedOtherKeys cv tr keys hands rawDetectedKeys)))
            \<le> length (take 2 (sortedOtherKeys cv tr keys hands rawDetectedKeys))"
      using set_of_list_length[of "take 2 (sortedOtherKeys cv tr keys hands rawDetectedKeys)" "[]"]
      by (simp add: set_of_list_def)
    then show ?thesis using True None by (simp add: limitKeys_def Let_def)
  next
    case (Some t)
    then show ?thesis using True set_add_length[of "[t]"]
      by (simp add: limitKeys_def Let_def numeral_2_eq_2)
  qed
qed

lemma set_of_list_distinct:
  "distinct (acc @ xs) \<Longrightarrow> fold (\<lambda>x s. set_add s x) xs acc = acc @ xs"
  by (induction xs arbitrary: acc) (auto simp: set_add_def)

lemma hd_sort_key_least:
  assumes "xs \<noteq> []"
  shows "hd (sort_key f xs) \<in> set xs" and "\<forall>x\<in>set xs. f (hd (sort_key f xs)) \<le> f x"
proof -
  obtain y ys where e: "sort_key f xs = y # ys"
    using assms by (cases "sort_key f xs") (auto dest: arg_cong[where f = length])
  have "set (y # ys) = set xs" unfolding e[symmetric] by simp
  then show "hd (sort_key f xs) \<in> set xs" unfolding e by auto
  have "sorted (map f (y # ys))" unfolding e[symmetric] by simp
  then have "\<forall>x\<in>set (y # ys). f y \<le> f x" by auto
  then show "\<forall>x\<in>set xs. f (hd (sort_key f xs)) \<le> f x"
    unfolding e using \<open>set (y # ys) = set xs\<close> by auto
qed

lemma take2_sort_key_least:
  assumes "k \<in> set (take 2 (sort_key f xs))" and "j \<in> set xs" and "j \<notin> set (take 2 (sort_key f xs))"
  shows "f k \<le> f j"
proof -
  let ?s = "sort_key f xs"
  have "j \<in> set ?s" using assms(2) by simp
  then have "j \<in> set (drop 2 ?s)"
    using assms(3) by (metis Un_iff append_take_drop_id set_append)
  moreover have "sorted (map f (take 2 ?s @ drop 2 ?s))" by simp
  ultimately show ?thesis using assms(1)
    unfolding map_append sorted_append by auto
qed

lemma limitKeys_thumb:
  assumes "length rawDetectedKeys > 2" and "distinct rawDetectedKeys"
    and "thumbKey cv tr keys hands rawDetectedKeys = Some t"
  shows "\<exists>k. limitKeys cv tr keys hands rawDetectedKeys = [t, k] \<and> k \<in> set rawDetectedKeys \<and> k \<noteq> t \<and>
           (\<forall>j\<in>set rawDetectedKeys. j \<noteq> t \<longrightarrow>
              keyDistance cv tr keys hands k \<le> keyDistance cv tr keys hands j)"
proof -
  let ?d = "keyDistance cv tr keys hands"
  let ?o = "filter (\<lambda>i. i \<noteq> t) rawDetectedKeys"
  have i: "thumbKeyIndex cv tr keys hands = Some t" and m: "t \<in> set rawDetectedKeys"
    using assms(3) by (auto simp: thumbKey_def split: option.splits if_splits)
  have s: "sortedOtherKeys cv tr keys hands rawDetectedKeys = sort_key ?d ?o"
    by (simp add: sortedOtherKeys_def i)
  have "length rawDetectedKeys = length ?o + length (filter (\<lambda>i. \<not> i \<noteq> t) rawDetectedKeys)"
    by (rule sum_length_filter_compl[symmetric])
  moreover have "length (filter (\<lambda>i. \<not> i \<noteq> t) rawDetectedKeys) \<le> 1"
  proof -
    have "card ({t} \<inter> set rawDetectedKeys) \<le> card {t}"
      by (rule card_mono) auto
    then show ?thesis using assms(2) by (simp add: distinct_length_filter)
  qed
  ultimately have n: "?o \<noteq> []" using assms(1) by auto
  let ?k = "hd (sort_key ?d ?o)"
  have k: "?k \<in> set ?o" and l: "\<forall>x\<in>set ?o. ?d ?k \<le> ?d x"
    using hd_sort_key_least[OF n] by blast+
  have "limitKeys cv tr keys hands rawDetectedKeys = [t, ?k]"
  proof -
    have "sort_key ?d ?o \<noteq> []" using n by (metis length_0_conv length_sort)
    moreover have "?k \<noteq> t" using k by simp
    ultimately show ?thesis
      using assms(1,3) by (simp add: limitKeys_def s set_add_def Let_def)
  qed
  then show ?thesis using k l by auto
qed

lemma limitKeys_no_thumb:
  assumes "length rawDetectedKeys > 2" and "distinct rawDetectedKeys"
    and "thumbKey cv tr keys hands rawDetectedKeys = None"
  shows "limitKeys cv tr keys hands rawDetectedKeys =
           take 2 (sort_key (keyDistance cv tr keys hands) rawDetectedKeys)"
    and "length (limitKeys cv tr keys hands rawDetectedKeys) = 2"
    and "\<forall>k\<in>set (limitKeys cv tr keys hands rawDetectedKeys).
           \<forall>j\<in>set rawDetectedKeys. j \<notin> set (limitKeys cv tr keys hands rawDetectedKeys) \<longrightarrow>
              keyDistance cv tr keys hands k \<le> keyDistance cv tr keys hands j"
proof -
  let ?d = "keyDistance cv tr keys hands"
  have "filter (\<lambda>i. Some i \<noteq> thumbKeyIndex cv tr keys hands) rawDetectedKeys = rawDetectedKeys"
    using assms(3) by (auto simp: thumbKey_def filter_id_conv split: option.splits if_splits)
  then have s: "sortedOtherKeys cv tr keys hands rawDetectedKeys = sort_key ?d rawDetectedKeys"
    by (simp add: sortedOtherKeys_def)
  have "distinct (take 2 (sort_key ?d rawDetectedKeys))"
    using assms(2) by (simp add: distinct_take)
  then have "set_of_list (take 2 (sort_key ?d rawDetectedKeys)) = take 2 (sort_key ?d rawDetectedKeys)"
    using set_of_list_distinct[of "[]" "take 2 (sort_key ?d rawDetectedKeys)"]
    by (simp add: set_of_list_def)
  then show e: "limitKeys cv tr keys hands rawDetectedKeys = take 2 (sort_key ?d rawDetectedKeys)"
    using assms(1,3) by (simp add: limitKeys_def s)
  show "length (limitKeys cv tr keys hands rawDetectedKeys) = 2"
    unfolding e using assms(1) by simp
  show "\<forall>k\<in>set (limitKeys cv tr keys hands rawDetectedKeys).
           \<forall>j\<in>set rawDetectedKeys. j \<notin> set (limitKeys cv tr keys hands rawDetectedKeys) \<longrightarrow> ?d k \<le> ?d j"
    unfolding e
  proof (intro ballI impI)
    fix k j
    assume "k \<in> set (take 2 (sort_key ?d rawDetectedKeys))" and "j \<in> set rawDetectedKeys"
      and "j \<notin> set (take 2 (sort_key ?d rawDetectedKeys))"
    then show "?d k \<le> ?d j" by (rule take2_sort_key_least)
  qed
qed

lemma pressHand_wf:
  "[pressHand] \<noteq> []" "list_all (\<lambda>landmarks. 20 < length landmarks) [pressHand]"
  by (simp_all add: pressHand_def)

lemma press_stages:
  "resultHovered (handsBranch (map Key demoKeys)
     (updateHovered (applySmoothing defaultConfig demoKeys [2, 3]
        (updateHistory defaultConfig demoKeys [2, 3] pressEngine)))) = Some []"
  "resultEvents (handsBranch (map Key demoKeys)
     (updateHovered (applySmoothing defaultConfig demoKeys [2, 3]
        (updateHistory defaultConfig demoKeys [2, 3] pressEngine)))) = Some []"
  "resultHistory (handsBranch (map Key demoKeys)
     (updateHovered (applySmoothing defaultConfig demoKeys [2, 3]
        (updateHistory defaultConfig demoKeys [2, 3] pressEngine)))) 1 = Some [0, 0, 0]"
  "resultHistory (handsBranch (map Key demoKeys)
     (updateHovered (applySmoothing defaultConfig demoKeys [2, 3]
        (updateHistory defaultConfig demoKeys [2, 3] pressEngine)))) 2 = Some [0, 0, 1]"
  by code_simp+

lemma press_frame:
  "resultHovered (processLandmarkerResults defaultConfig demoCanvas demoTransform (map Key demoKeys)
     [pressHand] pressEngine) = Some []"
  "resultEvents (processLandmarkerResults defaultConfig demoCanvas demoTransform (map Key demoKeys)
     [pressHand] pressEngine) = Some []"
  "resultHistory (processLandmarkerResults defaultConfig demoCanvas demoTransform (map Key demoKeys)
     [pressHand] pressEngine) 1 = Some [0, 0, 0]"
  "resultHistory (processLandmarkerResults defaultConfig demoCanvas demoTransform (map Key demoKeys)
     [pressHand] pressEngine) 2 = Some [0, 0, 1]"
proof -
  have s: "scanHands defaultConfig demoCanvas demoTransform (map Key demoKeys) [pressHand] pressEngine =
      Some (detectKeys defaultConfig demoCanvas demoTransform (map keyOf (map Key demoKeys)) [pressHand] pressEngine)"
    by (rule scanHands_total) simp
  have l: "[2, 3] = limitKeys demoCanvas demoTransform demoKeys [pressHand]
      (snd (detectKeys defaultConfig demoCanvas demoTransform demoKeys [pressHand] pressEngine))"
    unfolding press_detect by (rule press_limit[symmetric])
  note f = hands_frame[OF demo_entries(1) pressHand_wf s demo_entries(2) l]
  show "resultHovered (processLandmarkerResults defaultConfig demoCanvas demoTransform (map Key demoKeys)
     [pressHand] pressEngine) = Some []"
    unfolding f by (rule press_stages)
  show "resultEvents (processLandmarkerResults defaultConfig demoCanvas demoTransform (map Key demoKeys)
     [pressHand] pressEngine) = Some []"
    unfolding f by (rule press_stages)
  show "resultHistory (processLandmarkerResults defaultConfig demoCanvas demoTransform (map Key demoKeys)
     [pressHand] pressEngine) 1 = Some [0, 0, 0]"
    unfolding f by (rule press_stages)
  show "resultHistory (processLandmarkerResults defaultConfig demoCanvas demoTransform (map Key demoKeys)
     [pressHand] pressEngine) 2 = Some [0, 0, 1]"
    unfolding f by (rule press_stages)
qed

text \<open>
  C3 fails on the frame of \<open>pressHand\<close> in the state \<open>pressEngine\<close>. The thumb asserts
  the black key 1 and three other fingers assert the keys 2, 3 and 4. The limiter looks
  for the key of the thumb with \<open>isPointInPolygon\<close>, which has no band filter, and stops
  at the first key in layout order that contains the thumb tip: the white key 0, which
  the black key overlaps. Key 0 is not asserted, so \<open>thumbKey\<close> is not set, the two
  nearest keys 2 and 3 are kept and the key of the thumb is dropped, although the code
  says \<open>Always include thumb\<close>: the frame records the sample 0 for key 1 and the sample
  1 for key 2.
\<close>

theorem limiter_drops_thumb_key:
  "selectedKey defaultConfig demoCanvas demoTransform demoKeys pressEngine (0, 0) True (595, 312) = Some 1 \<and>
   snd (detectKeys defaultConfig demoCanvas demoTransform demoKeys [pressHand] pressEngine) = [1, 2, 3, 4] \<and>
   thumbKeyIndex demoCanvas demoTransform demoKeys [pressHand] = Some 0 \<and>
   thumbKey demoCanvas demoTransform demoKeys [pressHand] [1, 2, 3, 4] = None \<and>
   limitKeys demoCanvas demoTransform demoKeys [pressHand] [1, 2, 3, 4] = [2, 3] \<and>
   resultHistory (processLandmarkerResults defaultConfig demoCanvas demoTransform (map Key demoKeys)
     [pressHand] pressEngine) 1 = Some [0, 0, 0] \<and>
   resultHistory (processLandmarkerResults defaultConfig demoCanvas demoTransform (map Key demoKeys)
     [pressHand] pressEngine) 2 = Some [0, 0, 1]"
  using press_selected(1) press_detect press_thumbKeyIndex press_limit press_frame(3,4)
  by (simp add: thumbKey_def)

section \<open>Malformed keys\<close>





















end
